theory Spec2Isabelle
  imports Complex_Main "HOL-Library.AList"
begin

section \<open>Python primitives used by the retrieval core\<close>

text \<open>
  The sources are Python. Floats are read as real numbers throughout; the integer
  positions that numpy hands back are unbounded \<open>int\<close>s. An exception is a value of
  \<open>py_error\<close> on the left of a sum, so that each \<open>try/except\<close> of the source is a
  \<open>case\<close> of the model.
\<close>

datatype py_error = IndexError | ZeroDivisionError | LibraryError

text \<open>\<open>xs[i]\<close>: an index below zero counts from the end, anything outside raises.\<close>

definition py_getitem :: "'a list \<Rightarrow> int \<Rightarrow> py_error + 'a" where
  "py_getitem xs i =
     (if 0 \<le> i \<and> i < int (length xs) then Inr (xs ! nat i)
      else if i < 0 \<and> - int (length xs) \<le> i then Inr (xs ! nat (int (length xs) + i))
      else Inl IndexError)"

text \<open>\<open>xs[:k]\<close>: a negative bound drops that many elements from the end.\<close>

definition py_slice_to :: "'a list \<Rightarrow> int \<Rightarrow> 'a list" where
  "py_slice_to xs k =
     (if 0 \<le> k then take (nat k) xs else take (nat (int (length xs) + k)) xs)"

text \<open>\<open>str.isspace\<close> on the code points below 256, and \<open>str.strip()\<close>.\<close>

definition py_isspace :: "char \<Rightarrow> bool" where
  "py_isspace c =
     (let n = of_char c :: nat
      in (9 \<le> n \<and> n \<le> 13) \<or> (28 \<le> n \<and> n \<le> 32) \<or> n = 133 \<or> n = 160)"

definition py_strip :: "string \<Rightarrow> string" where
  "py_strip s = rev (dropWhile py_isspace (rev (dropWhile py_isspace s)))"

section \<open>FAISSVectorSearch (models/vector\_search.py)\<close>

type_synonym vector = "real list"

text \<open>
  The object state. \<open>index\<close> is \<open>None\<close> when FAISS could not be initialised. The
  ANN structure itself belongs to the FAISS library: its state has the abstract type
  \<open>'ix\<close> and its \<open>search\<close> method is the parameter \<open>ann\<close> of the functions below,
  which returns the first row of distances zipped with the first row of labels, or
  raises.
\<close>

record ('ix, 'm) FAISSVectorSearch =
  dimension :: int
  index :: "'ix option"
  metadata :: "'m list"
  id_to_idx :: "(string \<times> int) list"

type_synonym 'ix ann_search = "'ix \<Rightarrow> vector \<Rightarrow> int \<Rightarrow> py_error + (real \<times> int) list"

text \<open>
  The result loop of \<open>search\<close>, lines 136-142: a label passes the test
  \<open>idx < len(self.metadata)\<close>, then the similarity \<open>1.0 / (1.0 + distance)\<close> is
  computed (a Python float division, which raises on a zero divisor) and the metadata
  is read with \<open>self.metadata[idx]\<close>.
\<close>

fun format_results :: "'m list \<Rightarrow> (real \<times> int) list \<Rightarrow> py_error + (int \<times> real \<times> 'm) list" where
  "format_results md [] = Inr []"
| "format_results md ((distance, idx) # rest) =
     (if idx < int (length md) then
        (if 1 + distance = 0 then Inl ZeroDivisionError
         else case py_getitem md idx of
                Inl e \<Rightarrow> Inl e
              | Inr m \<Rightarrow>
                  (case format_results md rest of
                     Inl e \<Rightarrow> Inl e
                   | Inr results \<Rightarrow> Inr ((idx, 1 / (1 + distance), m) # results)))
      else format_results md rest)"

definition search ::
  "'ix ann_search \<Rightarrow> ('ix, 'm) FAISSVectorSearch \<Rightarrow> vector \<Rightarrow> int \<Rightarrow> (int \<times> real \<times> 'm) list" where
  "search ann vs query_vector top_k =
     (case index vs of
        None \<Rightarrow> []
      | Some ix \<Rightarrow>
          (case ann ix query_vector top_k of
             Inl e \<Rightarrow> []
           | Inr raw \<Rightarrow>
               (case format_results (metadata vs) raw of
                  Inl e \<Rightarrow> []
                | Inr results \<Rightarrow> results)))"

text \<open>
  An index holding one vector, asked for two neighbours: FAISS pads the answer with the
  label \<open>-1\<close> and the largest float32 as distance.
\<close>

definition float32_max :: real where
  "float32_max = 340282346638528859811704183484516925440"

definition underfilled_ann :: "unit ann_search" where
  "underfilled_ann ix q k = Inr [(0, 0), (float32_max, -1)]"

definition one_vector_index :: "(unit, string) FAISSVectorSearch" where
  "one_vector_index =
     \<lparr>dimension = 2, index = Some (), metadata = [''only''], id_to_idx = [(''1'', 0)]\<rparr>"


subsection \<open>load\_index\<close>

text \<open>
  What \<open>load_index\<close> finds at a path: nothing, something the reader raises on, or a
  stored value. The side table is the pickled dictionary written by \<open>save_index\<close>; each
  of its three keys is read with \<open>data.get(key, default)\<close>, so each may be absent.
\<close>

datatype 'a disk_file = Missing | Unreadable | Stored 'a

record 'm side_table =
  stored_metadata :: "'m list option"
  stored_id_to_idx :: "(string \<times> int) list option"
  stored_dimension :: "int option"

definition dict_get :: "'a option \<Rightarrow> 'a \<Rightarrow> 'a" where
  "dict_get entry fallback = (case entry of None \<Rightarrow> fallback | Some v \<Rightarrow> v)"

text \<open>
  Lines 202-227. The index attribute is assigned as soon as \<open>faiss.read_index\<close> returns,
  before the side table is opened, so a failure of the second read leaves the new index
  in place while the call reports \<open>False\<close>.
\<close>

definition load_index ::
  "('ix, 'm) FAISSVectorSearch \<Rightarrow> 'ix disk_file \<Rightarrow> 'm side_table disk_file \<Rightarrow>
     bool \<times> ('ix, 'm) FAISSVectorSearch" where
  "load_index vs index_path metadata_path =
     (case (index_path, metadata_path) of
        (Missing, _) \<Rightarrow> (False, vs)
      | (_, Missing) \<Rightarrow> (False, vs)
      | (Unreadable, _) \<Rightarrow> (False, vs)
      | (Stored ix, Unreadable) \<Rightarrow> (False, vs\<lparr>index := Some ix\<rparr>)
      | (Stored ix, Stored data) \<Rightarrow>
          (True, vs\<lparr>index := Some ix,
                    metadata := dict_get (stored_metadata data) [],
                    id_to_idx := dict_get (stored_id_to_idx data) [],
                    dimension := dict_get (stored_dimension data) (dimension vs)\<rparr>))"

text \<open>An index configured for 384 dimensions and a persisted pair recorded with 128.\<close>

definition configured_384 :: "(unit, string) FAISSVectorSearch" where
  "configured_384 = \<lparr>dimension = 384, index = Some (), metadata = [], id_to_idx = []\<rparr>"

definition table_128 :: "string side_table" where
  "table_128 =
     \<lparr>stored_metadata = Some [''doc''], stored_id_to_idx = Some [(''1'', 0)],
      stored_dimension = Some 128\<rparr>"

section \<open>TextEmbeddingEngine (models/embedding\_engine.py)\<close>

text \<open>
  \<open>model\<close> is \<open>None\<close> when the SentenceTransformer failed to load; otherwise it is the
  model's \<open>encode\<close>, which may raise. The cache is a dictionary from text hash to
  vector; the hash (\<open>hashlib.md5\<close>) is the parameter \<open>text_hash\<close>. The pickle file
  that \<open>_save_cache\<close> rewrites every hundredth entry is outside the modelled state.
\<close>

record TextEmbeddingEngine =
  model :: "(string \<Rightarrow> py_error + vector) option"
  embedding_dim :: nat
  embedding_cache :: "(string \<times> vector) list"

definition encode_text ::
  "(string \<Rightarrow> string) \<Rightarrow> TextEmbeddingEngine \<Rightarrow> string \<Rightarrow> bool \<Rightarrow>
     vector option \<times> TextEmbeddingEngine" where
  "encode_text text_hash eng text use_cache =
     (case model eng of
        None \<Rightarrow> (None, eng)
      | Some encode \<Rightarrow>
          if text = [] \<or> py_strip text = [] then
            (Some (replicate (embedding_dim eng) 0), eng)
          else if use_cache \<and> map_of (embedding_cache eng) (text_hash text) \<noteq> None then
            (map_of (embedding_cache eng) (text_hash text), eng)
          else
            (case encode text of
               Inl e \<Rightarrow> (None, eng)
             | Inr embedding \<Rightarrow>
                 (Some embedding,
                  if use_cache then
                    eng\<lparr>embedding_cache :=
                          AList.update (text_hash text) embedding (embedding_cache eng)\<rparr>
                  else eng)))"

section \<open>EvidenceRetriever (models/vector\_search.py)\<close>

text \<open>
  The metadata dictionary that \<open>add_evidence\<close> stores for an article, and the
  dictionary that \<open>retrieve_evidence\<close> builds from it. The keys that later stages add
  to a result (\<open>rerank_score\<close>, \<open>combined_score\<close>, \<open>final_rank\<close>,
  \<open>ranking_method\<close>) are optional fields: \<open>None\<close> is an absent key.
\<close>

record article_meta =
  doc_id :: string
  title :: string
  content :: string
  url :: string
  source :: string
  published_date :: "string option"
  author :: "string option"
  tags :: "string list"
  credibility_score :: real

record evidence = article_meta +
  similarity_score :: real
  faiss_index :: int
  rerank_score :: "real option"
  combined_score :: "real option"
  final_rank :: "int option"
  ranking_method :: "string option"

record 'ix EvidenceRetriever =
  embedding_engine :: TextEmbeddingEngine
  vector_search :: "('ix, article_meta) FAISSVectorSearch"

definition evidence_of :: "int \<times> real \<times> article_meta \<Rightarrow> evidence" where
  "evidence_of r =
     (case r of (idx, similarity, md) \<Rightarrow>
        \<lparr>doc_id = doc_id md, title = title md, content = content md, url = url md,
         source = source md, published_date = published_date md, author = author md,
         tags = tags md, credibility_score = credibility_score md,
         similarity_score = similarity, faiss_index = idx,
         rerank_score = None, combined_score = None, final_rank = None,
         ranking_method = None\<rparr>)"

text \<open>
  Lines 343-376. The query is embedded (which may fill the engine's cache), the index is
  searched, and the hits at or above \<open>min_similarity\<close> are kept in the order of the
  search. Both callees catch their own exceptions, so the body has nothing left that
  raises and the outer \<open>except\<close> is never entered.
\<close>

definition retrieve_evidence ::
  "'ix ann_search \<Rightarrow> (string \<Rightarrow> string) \<Rightarrow> 'ix EvidenceRetriever \<Rightarrow> string \<Rightarrow> int \<Rightarrow> real \<Rightarrow>
     evidence list \<times> 'ix EvidenceRetriever" where
  "retrieve_evidence ann text_hash er query top_k min_similarity =
     (case encode_text text_hash (embedding_engine er) query True of
        (None, eng) \<Rightarrow> ([], er\<lparr>embedding_engine := eng\<rparr>)
      | (Some query_embedding, eng) \<Rightarrow>
          (map evidence_of
             (filter (\<lambda>(idx, similarity, md). similarity \<ge> min_similarity)
                (search ann (vector_search er) query_embedding top_k)),
           er\<lparr>embedding_engine := eng\<rparr>))"

section \<open>Score fusion and reranking (models/reranker.py, models/vector\_search.py)\<close>

text \<open>
  \<open>_combine_scores\<close> is the same text in \<open>CrossEncoderReranker\<close> and in
  \<open>HybridRetriever\<close>. The divisor \<open>1 + exp(-x)\<close> is positive and numpy arithmetic
  does not raise, so the \<open>except\<close> branch of the source is never entered.
\<close>

definition combine_scores :: "real \<Rightarrow> real \<Rightarrow> real \<Rightarrow> real \<Rightarrow> real" where
  "combine_scores sim_score rr_score similarity_weight rerank_weight =
     (let normalized_rerank = 1 / (1 + exp (- rr_score));
          combined = similarity_weight * sim_score + rerank_weight * normalized_rerank
      in max 0 (min 1 combined))"

text \<open>The call made by the rerankers leaves both weights at their defaults.\<close>

definition combine_scores_default :: "real \<Rightarrow> real \<Rightarrow> real" where
  "combine_scores_default sim_score rr_score = combine_scores sim_score rr_score (3 / 10) (7 / 10)"

text \<open>The formula as the specification words it.\<close>

definition sigmoid :: "real \<Rightarrow> real" where
  "sigmoid x = 1 / (1 + exp (- x))"

definition spec_combined_score :: "real \<Rightarrow> real \<Rightarrow> real" where
  "spec_combined_score sim_score rr_score = 3 / 10 * sim_score + 7 / 10 * sigmoid rr_score"

text \<open>
  The scorer is the \<open>predict\<close> method of a sentence-transformers \<open>CrossEncoder\<close>: it
  takes the (query, passage text) pairs and returns one score per pair, or raises.
\<close>

type_synonym cross_encoder = "(string \<times> string) list \<Rightarrow> py_error + real list"

definition passage_text :: "evidence \<Rightarrow> string" where
  "passage_text passage =
     (let c = content passage;
          c' = (if length c > 500 then take 500 c @ ''...'' else c)
      in py_strip (title passage @ '' '' @ c'))"

text \<open>
  The loop that copies each passage and attaches \<open>rerank_score\<close> and
  \<open>combined_score\<close>; \<open>scores[i]\<close> raises when the scorer returned too few scores.
\<close>

fun add_scores :: "evidence list \<Rightarrow> real list \<Rightarrow> py_error + evidence list" where
  "add_scores [] scores = Inr []"
| "add_scores (passage # passages) [] = Inl IndexError"
| "add_scores (passage # passages) (s # scores) =
     (case add_scores passages scores of
        Inl e \<Rightarrow> Inl e
      | Inr rest \<Rightarrow>
          Inr (passage\<lparr>rerank_score := Some s,
                       combined_score :=
                         Some (combine_scores_default (similarity_score passage) s)\<rparr> # rest))"

text \<open>
  \<open>list.sort(key=..., reverse=True)\<close> is a stable descending sort; \<open>sort_key\<close> on the
  negated key is one. Every element reaching the sort carries a \<open>combined_score\<close>.
\<close>

definition sort_key_of :: "evidence \<Rightarrow> real" where
  "sort_key_of passage = (case combined_score passage of Some c \<Rightarrow> c | None \<Rightarrow> 0)"

definition sort_by_combined_desc :: "evidence list \<Rightarrow> evidence list" where
  "sort_by_combined_desc passages = sort_key (\<lambda>p. - sort_key_of p) passages"

text \<open>\<open>if top_k:\<close> holds for an integer other than zero.\<close>

definition truncate_top_k :: "int option \<Rightarrow> evidence list \<Rightarrow> evidence list" where
  "truncate_top_k top_k passages =
     (case top_k of
        None \<Rightarrow> passages
      | Some k \<Rightarrow> if k \<noteq> 0 then py_slice_to passages k else passages)"

text \<open>\<open>HybridRetriever._rerank_with_cross_encoder\<close>, vector\_search.py lines 538-580.\<close>

definition rerank_with_cross_encoder ::
  "cross_encoder \<Rightarrow> string \<Rightarrow> evidence list \<Rightarrow> int option \<Rightarrow> evidence list" where
  "rerank_with_cross_encoder predict query passages top_k =
     (case predict (map (\<lambda>p. (query, passage_text p)) passages) of
        Inl e \<Rightarrow> passages
      | Inr scores \<Rightarrow>
          (case add_scores passages scores of
             Inl e \<Rightarrow> passages
           | Inr reranked_passages \<Rightarrow>
               truncate_top_k top_k (sort_by_combined_desc reranked_passages)))"

text \<open>\<open>CrossEncoderReranker.rerank\<close>, reranker.py lines 58-109.\<close>

definition rerank ::
  "cross_encoder option \<Rightarrow> string \<Rightarrow> evidence list \<Rightarrow> int option \<Rightarrow> evidence list" where
  "rerank reranker_model query passages top_k =
     (case reranker_model of
        None \<Rightarrow> passages
      | Some predict \<Rightarrow>
          if passages = [] then []
          else rerank_with_cross_encoder predict query passages top_k)"

text \<open>Step 3 of both hybrid retrievers: the 1-based rank and the method tag.\<close>

definition add_ranking_metadata :: "string \<Rightarrow> evidence list \<Rightarrow> evidence list" where
  "add_ranking_metadata tag reranked =
     map (\<lambda>(i, result). result\<lparr>final_rank := Some (int i + 1), ranking_method := Some tag\<rparr>)
       (enumerate 0 reranked)"

text \<open>
  \<open>HybridRetriever.retrieve_and_rerank\<close> of vector\_search.py, lines 491-523. The
  retriever owns an optional scorer. Every callee catches its own exceptions, so the
  fallback of the outer \<open>except\<close> is never run.
\<close>

record 'ix HybridRetriever =
  evidence_retriever :: "'ix EvidenceRetriever"
  cross_encoder :: "cross_encoder option"

definition retrieve_and_rerank ::
  "'ix ann_search \<Rightarrow> (string \<Rightarrow> string) \<Rightarrow> 'ix HybridRetriever \<Rightarrow> string \<Rightarrow> int \<Rightarrow> int \<Rightarrow> real \<Rightarrow>
     evidence list \<times> 'ix HybridRetriever" where
  "retrieve_and_rerank ann text_hash hr query initial_top_k final_top_k min_similarity =
     (case retrieve_evidence ann text_hash (evidence_retriever hr) query initial_top_k
             min_similarity of
        (candidates, er) \<Rightarrow>
          if candidates = [] then ([], hr\<lparr>evidence_retriever := er\<rparr>)
          else
            (add_ranking_metadata
               (if cross_encoder hr \<noteq> None then ''hybrid_dense_crossencoder'' else ''dense_only'')
               (case cross_encoder hr of
                  Some predict \<Rightarrow>
                    rerank_with_cross_encoder predict query candidates (Some final_top_k)
                | None \<Rightarrow> py_slice_to candidates final_top_k),
             hr\<lparr>evidence_retriever := er\<rparr>))"

text \<open>
  \<open>HybridRetriever.retrieve_and_rerank\<close> of reranker.py, lines 202-230: the same
  pipeline over an injected \<open>CrossEncoderReranker\<close>, whose \<open>model\<close> may be \<open>None\<close>.
\<close>

record 'ix RerankerHybridRetriever =
  rh_evidence_retriever :: "'ix EvidenceRetriever"
  rh_cross_encoder :: "cross_encoder option"

definition reranker_retrieve_and_rerank ::
  "'ix ann_search \<Rightarrow> (string \<Rightarrow> string) \<Rightarrow> 'ix RerankerHybridRetriever \<Rightarrow> string \<Rightarrow> int \<Rightarrow> int \<Rightarrow>
     real \<Rightarrow> evidence list \<times> 'ix RerankerHybridRetriever" where
  "reranker_retrieve_and_rerank ann text_hash hr query initial_top_k final_top_k min_similarity =
     (case retrieve_evidence ann text_hash (rh_evidence_retriever hr) query initial_top_k
             min_similarity of
        (candidates, er) \<Rightarrow>
          if candidates = [] then ([], hr\<lparr>rh_evidence_retriever := er\<rparr>)
          else
            (add_ranking_metadata ''hybrid_dense_crossencoder''
               (rerank (rh_cross_encoder hr) query candidates (Some final_top_k)),
             hr\<lparr>rh_evidence_retriever := er\<rparr>))"

section \<open>Caching (models/caching.py)\<close>

text \<open>
  \<open>time.time()\<close> is the argument \<open>now\<close> of each operation. A cached value is any
  Python object, \<open>None\<close> included: the value type is \<open>'v option\<close>, with \<open>None\<close> for
  Python's \<open>None\<close>, which is also what a cache \<open>get\<close> returns for a miss.
\<close>

record 'v CacheEntry =
  entry_key :: string
  entry_value :: "'v option"
  created_at :: real
  ttl_seconds :: int
  access_count :: int
  last_accessed :: real

definition new_entry :: "real \<Rightarrow> string \<Rightarrow> 'v option \<Rightarrow> int \<Rightarrow> 'v CacheEntry" where
  "new_entry now k v ttl =
     \<lparr>entry_key = k, entry_value = v, created_at = now, ttl_seconds = ttl,
      access_count = 0, last_accessed = now\<rparr>"

definition is_expired :: "real \<Rightarrow> 'v CacheEntry \<Rightarrow> bool" where
  "is_expired now entry = (now - created_at entry > of_int (ttl_seconds entry))"

definition access :: "real \<Rightarrow> 'v CacheEntry \<Rightarrow> 'v CacheEntry" where
  "access now entry = entry\<lparr>access_count := access_count entry + 1, last_accessed := now\<rparr>"

text \<open>
  \<open>MemoryCache\<close>. The dictionary \<open>_cache\<close> keeps insertion order, which decides the
  entry that \<open>min\<close> picks among equally old ones: it is an association list with
  \<open>AList.update\<close> (replace in place, or append) and \<open>AList.delete\<close>.
\<close>

record 'v MemoryCache =
  default_ttl :: int
  max_size :: int
  m_cache :: "(string \<times> 'v CacheEntry) list"

text \<open>Python's \<open>min(iterable, key=f)\<close>: the first element with the least key.\<close>

fun py_min_by :: "('a \<Rightarrow> real) \<Rightarrow> 'a \<Rightarrow> 'a list \<Rightarrow> 'a" where
  "py_min_by f best [] = best"
| "py_min_by f best (x # xs) = py_min_by f (if f x < f best then x else best) xs"

definition lru_key :: "(string \<times> 'v CacheEntry) list \<Rightarrow> string option" where
  "lru_key items =
     (case items of
        [] \<Rightarrow> None
      | first # rest \<Rightarrow> Some (fst (py_min_by (\<lambda>(k, entry). last_accessed entry) first rest)))"

definition evict_lru :: "'v MemoryCache \<Rightarrow> 'v MemoryCache" where
  "evict_lru mc =
     (case lru_key (m_cache mc) of
        None \<Rightarrow> mc
      | Some k \<Rightarrow> mc\<lparr>m_cache := AList.delete k (m_cache mc)\<rparr>)"

text \<open>\<open>ttl or self.default_ttl\<close>: an omitted or zero \<open>ttl\<close> takes the default.\<close>

definition ttl_or_default :: "int option \<Rightarrow> int \<Rightarrow> int" where
  "ttl_or_default ttl dflt = (case ttl of None \<Rightarrow> dflt | Some t \<Rightarrow> if t = 0 then dflt else t)"

definition MemoryCache_set ::
  "real \<Rightarrow> 'v MemoryCache \<Rightarrow> string \<Rightarrow> 'v option \<Rightarrow> int option \<Rightarrow> bool \<times> 'v MemoryCache" where
  "MemoryCache_set now mc k v ttl =
     (let mc1 = (if int (length (m_cache mc)) \<ge> max_size mc then evict_lru mc else mc)
      in (True,
          mc1\<lparr>m_cache :=
                AList.update k (new_entry now k v (ttl_or_default ttl (default_ttl mc)))
                  (m_cache mc1)\<rparr>))"

definition MemoryCache_get ::
  "real \<Rightarrow> 'v MemoryCache \<Rightarrow> string \<Rightarrow> 'v option \<times> 'v MemoryCache" where
  "MemoryCache_get now mc k =
     (case map_of (m_cache mc) k of
        None \<Rightarrow> (None, mc)
      | Some entry \<Rightarrow>
          if \<not> is_expired now entry then
            (entry_value entry, mc\<lparr>m_cache := AList.update k (access now entry) (m_cache mc)\<rparr>)
          else (None, mc\<lparr>m_cache := AList.delete k (m_cache mc)\<rparr>))"

definition MemoryCache_delete :: "'v MemoryCache \<Rightarrow> string \<Rightarrow> bool \<times> 'v MemoryCache" where
  "MemoryCache_delete mc k =
     (if map_of (m_cache mc) k \<noteq> None then (True, mc\<lparr>m_cache := AList.delete k (m_cache mc)\<rparr>)
      else (False, mc))"

definition MemoryCache_clear :: "'v MemoryCache \<Rightarrow> bool \<times> 'v MemoryCache" where
  "MemoryCache_clear mc = (True, mc\<lparr>m_cache := []\<rparr>)"

definition cleanup_expired :: "real \<Rightarrow> 'v MemoryCache \<Rightarrow> 'v MemoryCache" where
  "cleanup_expired now mc =
     mc\<lparr>m_cache := filter (\<lambda>(k, entry). \<not> is_expired now entry) (m_cache mc)\<rparr>"

text \<open>The states a cache passes through, from its construction on.\<close>

inductive reachable :: "int \<Rightarrow> int \<Rightarrow> 'v MemoryCache \<Rightarrow> bool" for dttl msize where
  init: "reachable dttl msize \<lparr>default_ttl = dttl, max_size = msize, m_cache = []\<rparr>"
| after_set: "reachable dttl msize mc \<Longrightarrow> reachable dttl msize (snd (MemoryCache_set now mc k v ttl))"
| after_get: "reachable dttl msize mc \<Longrightarrow> reachable dttl msize (snd (MemoryCache_get now mc k))"
| after_delete: "reachable dttl msize mc \<Longrightarrow> reachable dttl msize (snd (MemoryCache_delete mc k))"
| after_clear: "reachable dttl msize mc \<Longrightarrow> reachable dttl msize (snd (MemoryCache_clear mc))"
| after_cleanup: "reachable dttl msize mc \<Longrightarrow> reachable dttl msize (cleanup_expired now mc)"

text \<open>
  \<open>CacheManager\<close> wraps a backend and counts. The backend's \<open>get\<close> is a parameter
  returning the value and the backend's new state, or raising.
\<close>

record cache_stats =
  hits :: int
  misses :: int
  sets :: int
  deletes :: int
  errors :: int

record 'b CacheManager =
  cache :: 'b
  stats :: cache_stats

definition CacheManager_get ::
  "('b \<Rightarrow> string \<Rightarrow> py_error + ('v option \<times> 'b)) \<Rightarrow> 'b CacheManager \<Rightarrow> string \<Rightarrow>
     'v option \<times> 'b CacheManager" where
  "CacheManager_get backend_get mgr k =
     (case backend_get (cache mgr) k of
        Inr (v, backend) \<Rightarrow>
          if v \<noteq> None then
            (v, mgr\<lparr>cache := backend, stats := (stats mgr)\<lparr>hits := hits (stats mgr) + 1\<rparr>\<rparr>)
          else
            (v, mgr\<lparr>cache := backend, stats := (stats mgr)\<lparr>misses := misses (stats mgr) + 1\<rparr>\<rparr>)
      | Inl e \<Rightarrow> (None, mgr\<lparr>stats := (stats mgr)\<lparr>errors := errors (stats mgr) + 1\<rparr>\<rparr>))"

text \<open>The in-process backend as the manager sees it; \<open>MemoryCache.get\<close> does not raise.\<close>

definition memory_backend_get ::
  "real \<Rightarrow> 'v MemoryCache \<Rightarrow> string \<Rightarrow> py_error + ('v option \<times> 'v MemoryCache)" where
  "memory_backend_get now mc k = Inr (MemoryCache_get now mc k)"

section \<open>Concrete instances\<close>

text \<open>An engine whose model failed to load, and one whose model embeds every text alike.\<close>

definition engine_unloaded :: TextEmbeddingEngine where
  "engine_unloaded = \<lparr>model = None, embedding_dim = 2, embedding_cache = []\<rparr>"

definition engine_loaded :: TextEmbeddingEngine where
  "engine_loaded = \<lparr>model = Some (\<lambda>t. Inr [1, 0]), embedding_dim = 2, embedding_cache = []\<rparr>"

text \<open>A corpus of two articles behind an ANN that answers with distances 0 and 1.\<close>

definition article :: "string \<Rightarrow> string \<Rightarrow> string \<Rightarrow> article_meta" where
  "article i t c =
     \<lparr>doc_id = i, title = t, content = c, url = '''', source = '''', published_date = None,
      author = None, tags = [], credibility_score = 1 / 2\<rparr>"

definition two_articles :: "(unit, article_meta) FAISSVectorSearch" where
  "two_articles =
     \<lparr>dimension = 2, index = Some (),
      metadata = [article ''1'' ''Vaccine safety'' ''safe'', article ''2'' ''Digital'' ''program''],
      id_to_idx = [(''1'', 0), (''2'', 1)]\<rparr>"

definition exact_ann :: "unit ann_search" where
  "exact_ann ix q k = Inr [(0, 0), (1, 1)]"

definition retriever_two :: "unit EvidenceRetriever" where
  "retriever_two = \<lparr>embedding_engine = engine_loaded, vector_search = two_articles\<rparr>"

definition retriever_unloaded :: "unit EvidenceRetriever" where
  "retriever_unloaded = \<lparr>embedding_engine = engine_unloaded, vector_search = two_articles\<rparr>"

definition retriever_empty :: "unit EvidenceRetriever" where
  "retriever_empty =
     \<lparr>embedding_engine = engine_loaded,
      vector_search = \<lparr>dimension = 2, index = Some (), metadata = [], id_to_idx = []\<rparr>\<rparr>"

text \<open>A manager over an in-process cache that holds \<open>None\<close> under the key \<open>k\<close>.\<close>

definition manager_with_None :: "nat MemoryCache CacheManager" where
  "manager_with_None =
     \<lparr>cache = \<lparr>default_ttl = 3600, max_size = 100,
               m_cache = [(''k'', new_entry 0 ''k'' None 3600)]\<rparr>,
      stats = \<lparr>hits = 0, misses = 0, sets = 1, deletes = 0, errors = 0\<rparr>\<rparr>"

text \<open>
  A result without the keys that reranking and ranking attach: the record as stage 1
  returned it.
\<close>

definition base_record :: "evidence \<Rightarrow> evidence" where
  "base_record r =
     r\<lparr>rerank_score := None, combined_score := None, final_rank := None, ranking_method := None\<rparr>"

text \<open>Hybrid retrievers over the two-article corpus, without and with a scorer.\<close>

definition hybrid_unloaded :: "unit HybridRetriever" where
  "hybrid_unloaded = \<lparr>evidence_retriever = retriever_two, cross_encoder = None\<rparr>"

definition reranker_hybrid_unloaded :: "unit RerankerHybridRetriever" where
  "reranker_hybrid_unloaded = \<lparr>rh_evidence_retriever = retriever_two, rh_cross_encoder = None\<rparr>"

definition constant_scorer :: cross_encoder where
  "constant_scorer pairs = Inr (map (\<lambda>p. 0) pairs)"

definition hybrid_loaded :: "unit HybridRetriever" where
  "hybrid_loaded = \<lparr>evidence_retriever = retriever_two, cross_encoder = Some constant_scorer\<rparr>"

text \<open>A manager over an in-process cache that holds the value 7 under \<open>k\<close>.\<close>

definition manager_with_value :: "nat MemoryCache CacheManager" where
  "manager_with_value =
     \<lparr>cache = \<lparr>default_ttl = 3600, max_size = 100,
               m_cache = [(''k'', new_entry 0 ''k'' (Some 7) 3600)]\<rparr>,
      stats = \<lparr>hits = 0, misses = 0, sets = 1, deletes = 0, errors = 0\<rparr>\<rparr>"

text \<open>
  What every state of a cache with room for at least one entry satisfies: the keys are
  those of a dictionary, and there are at most \<open>max_size\<close> of them.
\<close>

definition cache_inv :: "'v MemoryCache \<Rightarrow> bool" where
  "cache_inv mc =
     (distinct (map fst (m_cache mc)) \<and> int (length (m_cache mc)) \<le> max_size mc)"

text \<open>
  A cache constructed with \<open>max_size = 0\<close>, and the cache of the scenario
  \<open>max_size = 2; set(a); set(b)\<close> at times 1 and 2.
\<close>

definition zero_cache :: "nat MemoryCache" where
  "zero_cache = \<lparr>default_ttl = 3600, max_size = 0, m_cache = []\<rparr>"

definition empty_cache_2 :: "nat MemoryCache" where
  "empty_cache_2 = \<lparr>default_ttl = 3600, max_size = 2, m_cache = []\<rparr>"

definition cache_ab :: "nat MemoryCache" where
  "cache_ab =
     snd (MemoryCache_set 2 (snd (MemoryCache_set 1 empty_cache_2 ''a'' (Some 1) None))
            ''b'' (Some 2) None)"

text \<open>The same scenario with both entries written at time 1, so that they tie.\<close>

definition cache_tie :: "nat MemoryCache" where
  "cache_tie =
     snd (MemoryCache_set 1 (snd (MemoryCache_set 1 empty_cache_2 ''a'' (Some 1) None))
            ''b'' (Some 2) None)"

section \<open>Properties of the vector index\<close>

lemma py_getitem_upper:
  "py_getitem xs i = Inr x \<Longrightarrow> i < int (length xs) \<and> - int (length xs) \<le> i"
  by (auto simp: py_getitem_def split: if_splits)

lemma format_results_positions:
  "format_results md raw = Inr results \<Longrightarrow> (p, s, m) \<in> set results \<Longrightarrow>
     p < int (length md) \<and> - int (length md) \<le> p"
proof (induction md raw arbitrary: results rule: format_results.induct)
  case (1 md)
  then show ?case by simp
next
  case (2 md distance idx rest)
  then show ?case
    by (auto split: if_splits sum.splits dest: py_getitem_upper)
qed

text \<open>
  What the bound test of \<open>search\<close> does guarantee: a returned position is below the
  number of metadata records, and not below its negation.
\<close>

theorem search_positions_bounded:
  "list_all (\<lambda>(p, s, m). p < int (length (metadata vs)) \<and> - int (length (metadata vs)) \<le> p)
     (search ann vs q k)"
proof -
  have "p < int (length (metadata vs)) \<and> - int (length (metadata vs)) \<le> p"
    if "(p, s, m) \<in> set (search ann vs q k)" for p s m
    using that
    by (auto simp: search_def split: option.splits sum.splits
        dest: format_results_positions [OF sym])
  then show ?thesis unfolding list_all_iff by auto
qed

text \<open>
  C1. Every position returned by \<open>search\<close> should satisfy \<open>0 \<le> position < len(metadata)\<close>,
  the padding labels of an under-filled index being filtered out. The code tests only
  the upper bound: on the one-vector index the padding label \<open>-1\<close> passes
  \<open>idx < len(self.metadata)\<close>, \<open>self.metadata[-1]\<close> reads the last record, and the
  triple with position \<open>-1\<close> reaches the caller.
\<close>

theorem search_returns_padding_position:
  "search underfilled_ann one_vector_index [1, 0] 2 =
     [(0, 1, ''only''), (-1, 1 / (1 + float32_max), ''only'')]"
  by (simp add: search_def underfilled_ann_def one_vector_index_def py_getitem_def
      float32_max_def)


section \<open>Properties of persistence\<close>

text \<open>
  C2 as stated: reloading a file whose stored dimension differs from the configured one
  is rejected. \<open>load_index\<close> has no such test: on a readable pair recorded with 128
  dimensions, the object configured with 384 reports success and takes over 128.
\<close>

theorem load_index_adopts_mismatched_dimension:
  "dimension configured_384 = 384 \<and> stored_dimension table_128 = Some 128 \<and>
   fst (load_index configured_384 (Stored ()) (Stored table_128)) = True \<and>
   dimension (snd (load_index configured_384 (Stored ()) (Stored table_128))) = 128"
  by (simp add: load_index_def configured_384_def table_128_def dict_get_def)

text \<open>
  C2, amended: \<open>load_index\<close> reports failure exactly when one of the two files is missing
  or unreadable; a readable pair is accepted whatever dimension it records, and the
  object's dimension becomes the recorded one.
\<close>

theorem load_index_rejects_only_unreadable:
  "(fst (load_index vs index_path metadata_path) =
      (\<exists>ix data. index_path = Stored ix \<and> metadata_path = Stored data)) \<and>
   (index_path = Stored ix \<and> metadata_path = Stored data \<and> stored_dimension data = Some d \<longrightarrow>
      dimension (snd (load_index vs index_path metadata_path)) = d)"
  by (cases index_path; cases metadata_path) (simp_all add: load_index_def dict_get_def)

theorem load_index_rejects_only_unreadable_witness:
  "stored_dimension table_128 = Some 128 \<and>
   fst (load_index configured_384 (Stored ()) (Stored table_128)) \<and>
   dimension (snd (load_index configured_384 (Stored ()) (Stored table_128))) = 128 \<and>
   \<not> fst (load_index configured_384 (Stored ()) (Unreadable :: string side_table disk_file))"
  using load_index_rejects_only_unreadable
          [of configured_384 "Stored ()" "Stored table_128" "()" table_128 128]
        load_index_rejects_only_unreadable
          [of configured_384 "Stored ()" "Unreadable :: string side_table disk_file"]
  by (simp add: table_128_def)

section \<open>Properties of the embedding engine\<close>

lemma dropWhile_all_iff: "(\<forall>x \<in> set (dropWhile P xs). P x) \<longleftrightarrow> dropWhile P xs = []"
proof
  assume all: "\<forall>x \<in> set (dropWhile P xs). P x"
  show "dropWhile P xs = []"
  proof (rule ccontr)
    assume ne: "dropWhile P xs \<noteq> []"
    then have "\<not> P (hd (dropWhile P xs))" by (rule hd_dropWhile)
    moreover from ne have "hd (dropWhile P xs) \<in> set (dropWhile P xs)" by simp
    ultimately show False using all by blast
  qed
next
  assume "dropWhile P xs = []"
  then show "\<forall>x \<in> set (dropWhile P xs). P x" by (auto dest: set_dropWhileD)
qed

lemma py_strip_empty_iff: "py_strip s = [] \<longleftrightarrow> (\<forall>c \<in> set s. py_isspace c)"
proof -
  have "py_strip s = [] \<longleftrightarrow> (\<forall>x \<in> set (dropWhile py_isspace s). py_isspace x)"
    by (simp add: py_strip_def dropWhile_eq_Nil_conv)
  also have "\<dots> \<longleftrightarrow> dropWhile py_isspace s = []" by (rule dropWhile_all_iff)
  also have "\<dots> \<longleftrightarrow> (\<forall>c \<in> set s. py_isspace c)" by (simp add: dropWhile_eq_Nil_conv)
  finally show ?thesis .
qed

text \<open>
  C9. With no model loaded \<open>encode_text\<close> returns \<open>None\<close> for every text, the empty and
  the blank ones too, and leaves the engine as it was; the zero vector for an empty or
  blank text is returned only by an engine whose model is loaded.
\<close>

theorem encode_text_model_check_first:
  "(model eng = None \<longrightarrow> encode_text text_hash eng text use_cache = (None, eng)) \<and>
   (model eng \<noteq> None \<and> (\<forall>c \<in> set text. py_isspace c) \<longrightarrow>
      encode_text text_hash eng text use_cache = (Some (replicate (embedding_dim eng) 0), eng))"
  by (auto simp: encode_text_def py_strip_empty_iff split: option.splits)

theorem encode_text_model_check_first_witness:
  "model engine_unloaded = None \<and> model engine_loaded \<noteq> None \<and>
   py_isspace CHR '' '' \<and>
   encode_text id engine_unloaded [] True = (None, engine_unloaded) \<and>
   encode_text id engine_unloaded ''  '' True = (None, engine_unloaded) \<and>
   encode_text id engine_unloaded ''claim'' True = (None, engine_unloaded) \<and>
   encode_text id engine_loaded ''  '' True = (Some [0, 0], engine_loaded)"
  using encode_text_model_check_first [of engine_unloaded id "[]" True]
        encode_text_model_check_first [of engine_unloaded id "''  ''" True]
        encode_text_model_check_first [of engine_unloaded id "''claim''" True]
        encode_text_model_check_first [of engine_loaded id "''  ''" True]
  by (simp add: engine_unloaded_def engine_loaded_def py_isspace_def numeral_2_eq_2)

section \<open>Properties of score fusion\<close>

lemma sigmoid_bounds: "0 < sigmoid x \<and> sigmoid x < 1"
proof -
  have d: "0 < 1 + exp (- x)" by (simp add: add_pos_pos)
  have "(1 / (1 + exp (- x)) < 1) = (1 < 1 + exp (- x))"
    using d by (rule divide_less_eq_1_pos)
  then have upper: "1 / (1 + exp (- x)) < 1" by simp
  have lower: "0 < 1 / (1 + exp (- x))" using d by (rule divide_pos_pos [OF zero_less_one])
  show ?thesis unfolding sigmoid_def using lower upper by (rule conjI)
qed

lemma sigmoid_mono: "x \<le> y \<Longrightarrow> sigmoid x \<le> sigmoid y"
proof -
  assume "x \<le> y"
  then have "exp (- y) \<le> exp (- x)" by simp
  moreover have "0 < 1 + exp (- y)" by (simp add: add_pos_pos)
  ultimately show ?thesis unfolding sigmoid_def by (intro divide_left_mono) (auto simp: add_pos_pos)
qed

lemma combine_scores_default_eq:
  "combine_scores_default s r = max 0 (min 1 (spec_combined_score s r))"
  unfolding combine_scores_default_def combine_scores_def spec_combined_score_def sigmoid_def Let_def
  by (rule refl)

text \<open>
  C6. The combined score of the code is the specification's
  \<open>0.3 \<cdot> similarity + 0.7 \<cdot> sigmoid(rerank)\<close> clamped into \<open>[0, 1]\<close>; it lies in \<open>[0, 1]\<close>
  for all arguments, and for a similarity in \<open>[0, 1]\<close> the clamp changes nothing.
\<close>

theorem combined_score_formula:
  "combine_scores_default s r = max 0 (min 1 (spec_combined_score s r)) \<and>
   0 \<le> combine_scores_default s r \<and> combine_scores_default s r \<le> 1 \<and>
   (0 \<le> s \<and> s \<le> 1 \<longrightarrow> combine_scores_default s r = spec_combined_score s r)"
proof -
  have eq: "combine_scores_default s r = max 0 (min 1 (spec_combined_score s r))"
    by (rule combine_scores_default_eq)
  have exact: "combine_scores_default s r = spec_combined_score s r" if "0 \<le> s" "s \<le> 1"
  proof -
    from sigmoid_bounds [of r] that
    have "0 \<le> spec_combined_score s r" "spec_combined_score s r \<le> 1"
      by (simp_all add: spec_combined_score_def)
    then show ?thesis by (simp add: eq)
  qed
  show ?thesis using eq exact by simp
qed

theorem combined_score_formula_witness:
  "(0::real) \<le> 1 / 2 \<and> (1 / 2 :: real) \<le> 1 \<and> combine_scores_default (1 / 2) 0 = 1 / 2 \<and>
   spec_combined_score (1 / 2) 0 = 1 / 2"
  using combined_score_formula [of "1 / 2" 0]
  by (simp add: spec_combined_score_def sigmoid_def)

text \<open>
  C7. Fusion is monotone: a passage whose similarity and rerank score are both at least
  those of another has a combined score at least as large.
\<close>

theorem combined_score_monotone:
  assumes "sB \<le> sA" and "rB \<le> rA"
  shows "combine_scores_default sB rB \<le> combine_scores_default sA rA"
proof -
  have "spec_combined_score sB rB \<le> spec_combined_score sA rA"
    using assms sigmoid_mono [of rB rA] by (simp add: spec_combined_score_def)
  then show ?thesis by (simp add: combine_scores_default_eq min_def max_def)
qed

theorem combined_score_monotone_witness:
  "(1 / 5 :: real) \<le> 17 / 20 \<and> (0::real) \<le> 0 \<and>
   combine_scores_default (1 / 5) 0 = 41 / 100 \<and> combine_scores_default (17 / 20) 0 = 121 / 200 \<and>
   combine_scores_default (1 / 5) 0 \<le> combine_scores_default (17 / 20) 0"
  using combined_score_monotone [of "1 / 5" "17 / 20" 0 0]
  by (simp add: combine_scores_default_def combine_scores_def)


section \<open>Properties of evidence retrieval\<close>

lemma format_results_empty_metadata: "format_results [] raw = Inr results \<Longrightarrow> results = []"
proof (induction raw arbitrary: results)
  case Nil
  then show ?case by simp
next
  case (Cons r raw)
  obtain distance idx where r: "r = (distance, idx)" by (cases r)
  show ?case
  proof (cases "idx < 0")
    case True
    with Cons.prems r show ?thesis
      by (simp add: py_getitem_def split: if_splits)
  next
    case False
    with Cons.prems r have "format_results [] raw = Inr results" by simp
    then show ?thesis by (rule Cons.IH)
  qed
qed

lemma search_empty_metadata: "metadata vs = [] \<Longrightarrow> search ann vs q k = []"
  by (auto simp: search_def split: option.splits sum.splits dest: format_results_empty_metadata)

lemma search_no_index: "index vs = None \<Longrightarrow> search ann vs q k = []"
  by (simp add: search_def)

lemma retrieve_evidence_cases:
  "fst (retrieve_evidence ann text_hash er query top_k min_similarity) =
     (case fst (encode_text text_hash (embedding_engine er) query True) of
        None \<Rightarrow> []
      | Some qe \<Rightarrow>
          map evidence_of
            (filter (\<lambda>(idx, similarity, md). similarity \<ge> min_similarity)
               (search ann (vector_search er) qe top_k)))"
  by (simp add: retrieve_evidence_def split: prod.splits option.splits)

lemma similarity_score_evidence_of: "similarity_score (evidence_of (idx, s, md)) = s"
  by (simp add: evidence_of_def)

text \<open>
  C8. \<open>retrieve_evidence\<close> returns only records whose similarity reaches
  \<open>min_similarity\<close>, and it returns the empty list when the query cannot be embedded
  and when the index is empty (no metadata) or was never initialised. The function is
  total: whatever its callees raise ends as the empty list.
\<close>

theorem retrieve_evidence_threshold_and_empty:
  "(\<forall>e \<in> set (fst (retrieve_evidence ann text_hash er query top_k min_similarity)).
      similarity_score e \<ge> min_similarity) \<and>
   (fst (encode_text text_hash (embedding_engine er) query True) = None \<longrightarrow>
      fst (retrieve_evidence ann text_hash er query top_k min_similarity) = []) \<and>
   (metadata (vector_search er) = [] \<or> index (vector_search er) = None \<longrightarrow>
      fst (retrieve_evidence ann text_hash er query top_k min_similarity) = [])"
proof (intro conjI impI)
  show "\<forall>e \<in> set (fst (retrieve_evidence ann text_hash er query top_k min_similarity)).
      similarity_score e \<ge> min_similarity"
    by (auto simp: retrieve_evidence_cases similarity_score_evidence_of split: option.splits)
next
  assume "fst (encode_text text_hash (embedding_engine er) query True) = None"
  then show "fst (retrieve_evidence ann text_hash er query top_k min_similarity) = []"
    by (simp add: retrieve_evidence_cases)
next
  assume "metadata (vector_search er) = [] \<or> index (vector_search er) = None"
  then have "search ann (vector_search er) qe top_k = []" for qe
    using search_empty_metadata search_no_index by blast
  then show "fst (retrieve_evidence ann text_hash er query top_k min_similarity) = []"
    by (simp add: retrieve_evidence_cases split: option.splits)
qed

lemma encode_loaded: "encode_text id engine_loaded ''vaccine'' True =
   (Some [1, 0], engine_loaded\<lparr>embedding_cache := [(''vaccine'', [1, 0])]\<rparr>)"
  by (simp add: encode_text_def engine_loaded_def py_strip_def py_isspace_def)

lemma encode_unloaded: "encode_text id engine_unloaded t True = (None, engine_unloaded)"
  by (simp add: encode_text_def engine_unloaded_def)

lemma search_two_articles:
  "search exact_ann two_articles q k =
     [(0, 1, article ''1'' ''Vaccine safety'' ''safe''), (1, 1 / 2, article ''2'' ''Digital'' ''program'')]"
  by (simp add: search_def two_articles_def exact_ann_def py_getitem_def)

lemma retrieve_two:
  "map (\<lambda>e. (doc_id e, similarity_score e))
     (fst (retrieve_evidence exact_ann id retriever_two ''vaccine'' 2 (3 / 5))) = [(''1'', 1)]"
  by (simp add: retrieve_evidence_cases retriever_two_def encode_loaded search_two_articles
      evidence_of_def article_def)

theorem retrieve_evidence_threshold_and_empty_witness:
  "map (\<lambda>e. (doc_id e, similarity_score e))
     (fst (retrieve_evidence exact_ann id retriever_two ''vaccine'' 2 (3 / 5))) = [(''1'', 1)] \<and>
   fst (encode_text id (embedding_engine retriever_unloaded) ''vaccine'' True) = None \<and>
   fst (retrieve_evidence exact_ann id retriever_unloaded ''vaccine'' 2 0) = [] \<and>
   metadata (vector_search retriever_empty) = [] \<and>
   fst (retrieve_evidence exact_ann id retriever_empty ''vaccine'' 2 0) = []"
proof -
  have a: "fst (encode_text id (embedding_engine retriever_unloaded) ''vaccine'' True) = None"
    by (simp add: retriever_unloaded_def encode_unloaded)
  have b: "metadata (vector_search retriever_empty) = []"
    by (simp add: retriever_empty_def)
  show ?thesis
    using retrieve_evidence_threshold_and_empty
            [where ann = exact_ann and text_hash = id and er = retriever_two
               and query = "''vaccine''" and top_k = 2 and min_similarity = "3 / 5"]
          retrieve_evidence_threshold_and_empty
            [where ann = exact_ann and text_hash = id and er = retriever_unloaded
               and query = "''vaccine''" and top_k = 2 and min_similarity = 0]
          retrieve_evidence_threshold_and_empty
            [where ann = exact_ann and text_hash = id and er = retriever_empty
               and query = "''vaccine''" and top_k = 2 and min_similarity = 0]
          a b retrieve_two
    by simp
qed


section \<open>Properties of the cache manager\<close>

lemma MemoryCache_get_stored_None:
  "map_of (m_cache mc) k = Some entry \<Longrightarrow> entry_value entry = None \<Longrightarrow>
     fst (MemoryCache_get now mc k) = None"
  by (simp add: MemoryCache_get_def)

lemma MemoryCache_get_absent:
  "map_of (m_cache mc) k = None \<Longrightarrow> MemoryCache_get now mc k = (None, mc)"
  by (simp add: MemoryCache_get_def)

text \<open>
  The counters move with the returned value alone: a value other than \<open>None\<close> is a
  hit, \<open>None\<close> is a miss, whatever the backend and whatever it holds.
\<close>

theorem CacheManager_get_counts:
  "backend_get (cache mgr) k = Inr (v, b) \<Longrightarrow>
     fst (CacheManager_get backend_get mgr k) = v \<and>
     hits (stats (snd (CacheManager_get backend_get mgr k))) =
       hits (stats mgr) + (if v = None then 0 else 1) \<and>
     misses (stats (snd (CacheManager_get backend_get mgr k))) =
       misses (stats mgr) + (if v = None then 1 else 0) \<and>
     errors (stats (snd (CacheManager_get backend_get mgr k))) = errors (stats mgr)"
  by (simp add: CacheManager_get_def)

theorem CacheManager_get_counts_witness:
  "memory_backend_get 1 (cache manager_with_value) ''k'' =
     Inr (Some 7, (cache manager_with_value)
            \<lparr>m_cache := [(''k'', access 1 (new_entry 0 ''k'' (Some 7) 3600))]\<rparr>) \<and>
   fst (CacheManager_get (memory_backend_get 1) manager_with_value ''k'') = Some 7 \<and>
   hits (stats (snd (CacheManager_get (memory_backend_get 1) manager_with_value ''k''))) = 1 \<and>
   misses (stats (snd (CacheManager_get (memory_backend_get 1) manager_with_value ''k''))) = 0"
proof -
  have a: "memory_backend_get 1 (cache manager_with_value) ''k'' =
     Inr (Some 7, (cache manager_with_value)
            \<lparr>m_cache := [(''k'', access 1 (new_entry 0 ''k'' (Some 7) 3600))]\<rparr>)"
    by (simp add: memory_backend_get_def MemoryCache_get_def manager_with_value_def
        new_entry_def is_expired_def)
  have b: "hits (stats manager_with_value) = 0" "misses (stats manager_with_value) = 0"
    by (simp_all add: manager_with_value_def)
  from CacheManager_get_counts [where backend_get = "memory_backend_get 1", OF a] a b
  show ?thesis by simp
qed

lemma CacheManager_get_miss:
  "backend_get (cache mgr) k = Inr (None, b) \<Longrightarrow>
     CacheManager_get backend_get mgr k =
       (None, mgr\<lparr>cache := b, stats := (stats mgr)\<lparr>misses := misses (stats mgr) + 1\<rparr>\<rparr>)"
  by (simp add: CacheManager_get_def)

text \<open>
  C10. For a key under which the in-process cache holds \<open>None\<close>, \<open>CacheManager.get\<close>
  returns \<open>None\<close> and counts a miss, never a hit; the returned value and the counters
  are those of the same call on a cache that does not hold the key at all.
\<close>

theorem cached_None_counts_as_miss:
  assumes "map_of (m_cache (cache mgr)) k = Some entry" and "entry_value entry = None"
  shows "fst (CacheManager_get (memory_backend_get now) mgr k) = None \<and>
     misses (stats (snd (CacheManager_get (memory_backend_get now) mgr k))) = misses (stats mgr) + 1 \<and>
     hits (stats (snd (CacheManager_get (memory_backend_get now) mgr k))) = hits (stats mgr) \<and>
     fst (CacheManager_get (memory_backend_get now) mgr k) =
       fst (CacheManager_get (memory_backend_get now)
              (mgr\<lparr>cache := (cache mgr)\<lparr>m_cache := AList.delete k (m_cache (cache mgr))\<rparr>\<rparr>) k) \<and>
     stats (snd (CacheManager_get (memory_backend_get now) mgr k)) =
       stats (snd (CacheManager_get (memory_backend_get now)
              (mgr\<lparr>cache := (cache mgr)\<lparr>m_cache := AList.delete k (m_cache (cache mgr))\<rparr>\<rparr>) k))"
proof -
  let ?g = "memory_backend_get now"
  let ?absent = "mgr\<lparr>cache := (cache mgr)\<lparr>m_cache := AList.delete k (m_cache (cache mgr))\<rparr>\<rparr>"
  have stored: "fst (MemoryCache_get now (cache mgr) k) = None"
    using assms by (rule MemoryCache_get_stored_None)
  then obtain b where b: "?g (cache mgr) k = Inr (None, b)"
    by (cases "MemoryCache_get now (cache mgr) k") (simp add: memory_backend_get_def)
  have "map_of (m_cache (cache ?absent)) k = None"
    by (simp add: delete_conv')
  then have c: "?g (cache ?absent) k = Inr (None, cache ?absent)"
    by (simp add: memory_backend_get_def MemoryCache_get_absent)
  have present: "CacheManager_get ?g mgr k =
      (None, mgr\<lparr>cache := b, stats := (stats mgr)\<lparr>misses := misses (stats mgr) + 1\<rparr>\<rparr>)"
    using b by (rule CacheManager_get_miss)
  have absent: "CacheManager_get ?g ?absent k =
      (None, ?absent\<lparr>cache := cache ?absent,
                     stats := (stats ?absent)\<lparr>misses := misses (stats ?absent) + 1\<rparr>\<rparr>)"
    using c by (rule CacheManager_get_miss)
  show ?thesis unfolding present absent by simp
qed

theorem cached_None_counts_as_miss_witness:
  "map_of (m_cache (cache manager_with_None)) ''k'' = Some (new_entry 0 ''k'' None 3600) \<and>
   entry_value (new_entry 0 ''k'' (None :: nat option) 3600) = None \<and>
   fst (CacheManager_get (memory_backend_get 1) manager_with_None ''k'') = None \<and>
   stats (snd (CacheManager_get (memory_backend_get 1) manager_with_None ''k'')) =
     \<lparr>hits = 0, misses = 1, sets = 1, deletes = 0, errors = 0\<rparr>"
proof -
  have a: "map_of (m_cache (cache manager_with_None)) ''k'' = Some (new_entry 0 ''k'' None 3600)"
    by (simp add: manager_with_None_def)
  have b: "entry_value (new_entry 0 ''k'' (None :: nat option) 3600) = None"
    by (simp add: new_entry_def)
  have e: "stats (snd (CacheManager_get (memory_backend_get 1) manager_with_None ''k'')) =
     \<lparr>hits = 0, misses = 1, sets = 1, deletes = 0, errors = 0\<rparr>"
    by (simp add: CacheManager_get_def memory_backend_get_def MemoryCache_get_def
        manager_with_None_def new_entry_def is_expired_def)
  from cached_None_counts_as_miss [OF a b, of 1]
  have r: "fst (CacheManager_get (memory_backend_get 1) manager_with_None ''k'') = None"
    by (rule conjunct1)
  from a b r e show ?thesis by (intro conjI)
qed


section \<open>Properties of reranking\<close>

lemma set_py_slice_to: "set (py_slice_to xs k) \<subseteq> set xs"
  by (auto simp: py_slice_to_def dest: in_set_takeD)

lemma add_scores_map:
  assumes inv: "\<And>p s c. f (p\<lparr>rerank_score := s, combined_score := c\<rparr>) = f p"
  shows "add_scores passages scores = Inr rs \<Longrightarrow> map f rs = map f passages"
proof (induction passages scores arbitrary: rs rule: add_scores.induct)
  case (1 scores)
  then show ?case by simp
next
  case (2 passage passages)
  then show ?case by simp
next
  case (3 passage passages s scores)
  then show ?case by (auto simp: inv split: sum.splits)
qed

lemma set_truncate_top_k: "set (truncate_top_k top_k xs) \<subseteq> set xs"
  by (auto simp: truncate_top_k_def split: option.splits dest: subsetD [OF set_py_slice_to])

lemma rerank_with_cross_encoder_image:
  assumes inv: "\<And>p s c. f (p\<lparr>rerank_score := s, combined_score := c\<rparr>) = f p"
  shows "f ` set (rerank_with_cross_encoder predict query passages top_k) \<subseteq> f ` set passages"
proof (cases "predict (map (\<lambda>p. (query, passage_text p)) passages)")
  case (Inl e)
  then show ?thesis by (simp add: rerank_with_cross_encoder_def)
next
  case (Inr scores)
  show ?thesis
  proof (cases "add_scores passages scores")
    case (Inl e)
    with Inr show ?thesis by (simp add: rerank_with_cross_encoder_def)
  next
    case inner: (Inr rs)
    have "map f rs = map f passages" using inv inner by (rule add_scores_map)
    then have eq: "f ` set rs = f ` set passages" by (metis set_map)
    have "set (truncate_top_k top_k (sort_by_combined_desc rs)) \<subseteq> set rs"
      using set_truncate_top_k [of top_k "sort_by_combined_desc rs"]
      by (simp add: sort_by_combined_desc_def)
    then have "f ` set (truncate_top_k top_k (sort_by_combined_desc rs)) \<subseteq> f ` set rs"
      by (rule image_mono)
    with eq Inr inner show ?thesis by (simp add: rerank_with_cross_encoder_def)
  qed
qed

lemma rerank_image:
  assumes inv: "\<And>p s c. f (p\<lparr>rerank_score := s, combined_score := c\<rparr>) = f p"
  shows "f ` set (rerank reranker_model query passages top_k) \<subseteq> f ` set passages"
  using rerank_with_cross_encoder_image [of f, OF inv]
  by (auto simp: rerank_def split: option.splits)

lemma add_ranking_metadata_map:
  assumes inv: "\<And>p r m. f (p\<lparr>final_rank := r, ranking_method := m\<rparr>) = f p"
  shows "map f (add_ranking_metadata tag xs) = map f xs"
proof -
  have "map f (add_ranking_metadata tag xs) = map (f \<circ> snd) (enumerate 0 xs)"
    by (simp add: add_ranking_metadata_def inv case_prod_beta comp_def)
  also have "\<dots> = map f (map snd (enumerate 0 xs))" by (simp only: map_map)
  also have "\<dots> = map f xs" by (simp only: map_snd_enumerate)
  finally show ?thesis .
qed

lemma retrieve_and_rerank_image:
  assumes inv1: "\<And>p s c. f (p\<lparr>rerank_score := s, combined_score := c\<rparr>) = f p"
    and inv2: "\<And>p r m. f (p\<lparr>final_rank := r, ranking_method := m\<rparr>) = f p"
  shows "f ` set (fst (retrieve_and_rerank ann text_hash hr query initial_top_k final_top_k min_similarity))
     \<subseteq> f ` set (fst (retrieve_evidence ann text_hash (evidence_retriever hr) query initial_top_k min_similarity))"
proof -
  obtain candidates er where c:
    "retrieve_evidence ann text_hash (evidence_retriever hr) query initial_top_k min_similarity
       = (candidates, er)" by (cases "retrieve_evidence ann text_hash (evidence_retriever hr) query initial_top_k min_similarity")
  have meta: "f ` set (add_ranking_metadata tag xs) = f ` set xs" for tag xs
    using add_ranking_metadata_map [of f tag xs, OF inv2] by (metis set_map)
  show ?thesis
  proof (cases "cross_encoder hr")
    case None
    with c meta show ?thesis
      using set_py_slice_to [of candidates final_top_k]
      by (auto simp: retrieve_and_rerank_def)
  next
    case (Some predict)
    with c meta show ?thesis
      using rerank_with_cross_encoder_image [of f predict query candidates "Some final_top_k", OF inv1]
      by (auto simp: retrieve_and_rerank_def)
  qed
qed

lemma reranker_retrieve_and_rerank_image:
  assumes inv1: "\<And>p s c. f (p\<lparr>rerank_score := s, combined_score := c\<rparr>) = f p"
    and inv2: "\<And>p r m. f (p\<lparr>final_rank := r, ranking_method := m\<rparr>) = f p"
  shows "f ` set (fst (reranker_retrieve_and_rerank ann text_hash hr query initial_top_k final_top_k min_similarity))
     \<subseteq> f ` set (fst (retrieve_evidence ann text_hash (rh_evidence_retriever hr) query initial_top_k min_similarity))"
proof -
  obtain candidates er where c:
    "retrieve_evidence ann text_hash (rh_evidence_retriever hr) query initial_top_k min_similarity
       = (candidates, er)" by (cases "retrieve_evidence ann text_hash (rh_evidence_retriever hr) query initial_top_k min_similarity")
  have meta: "f ` set (add_ranking_metadata tag xs) = f ` set xs" for tag xs
    using add_ranking_metadata_map [of f tag xs, OF inv2] by (metis set_map)
  show ?thesis
    using c meta rerank_image [of f "rh_cross_encoder hr" query candidates "Some final_top_k", OF inv1]
    by (auto simp: reranker_retrieve_and_rerank_def)
qed

lemma base_record_evidence_of: "base_record (evidence_of r) = evidence_of r"
  by (cases r) (simp add: base_record_def evidence_of_def)

lemma base_record_candidates:
  "base_record ` set (fst (retrieve_evidence ann text_hash er query top_k min_similarity)) =
     set (fst (retrieve_evidence ann text_hash er query top_k min_similarity))"
proof -
  have "base_record e = e"
    if "e \<in> set (fst (retrieve_evidence ann text_hash er query top_k min_similarity))" for e
    using that by (auto simp: retrieve_evidence_cases base_record_evidence_of split: option.splits)
  then show ?thesis by force
qed

text \<open>
  C5. Whatever \<open>retrieve_and_rerank\<close> returns comes from the stage-1 candidates of the
  dense retrieval with \<open>top_k = initial_top_k\<close>: every returned id is a candidate's id,
  and every returned record, with the keys added by reranking removed, is a candidate.
  This holds for the retriever of vector\_search.py and for the one of reranker.py.
\<close>

theorem rerank_recall_containment:
  "doc_id ` set (fst (retrieve_and_rerank ann text_hash hr query initial_top_k final_top_k min_similarity))
     \<subseteq> doc_id ` set (fst (retrieve_evidence ann text_hash (evidence_retriever hr) query initial_top_k min_similarity)) \<and>
   doc_id ` set (fst (reranker_retrieve_and_rerank ann text_hash rhr query initial_top_k final_top_k min_similarity))
     \<subseteq> doc_id ` set (fst (retrieve_evidence ann text_hash (rh_evidence_retriever rhr) query initial_top_k min_similarity)) \<and>
   base_record ` set (fst (retrieve_and_rerank ann text_hash hr query initial_top_k final_top_k min_similarity))
     \<subseteq> set (fst (retrieve_evidence ann text_hash (evidence_retriever hr) query initial_top_k min_similarity)) \<and>
   base_record ` set (fst (reranker_retrieve_and_rerank ann text_hash rhr query initial_top_k final_top_k min_similarity))
     \<subseteq> set (fst (retrieve_evidence ann text_hash (rh_evidence_retriever rhr) query initial_top_k min_similarity))"
proof -
  have inv1: "doc_id (p\<lparr>rerank_score := s, combined_score := c\<rparr>) = doc_id p" for p :: evidence and s c
    by simp
  have inv2: "doc_id (p\<lparr>final_rank := r, ranking_method := m\<rparr>) = doc_id p" for p :: evidence and r m
    by simp
  have inv3: "base_record (p\<lparr>rerank_score := s, combined_score := c\<rparr>) = base_record p" for p s c
    by (simp add: base_record_def)
  have inv4: "base_record (p\<lparr>final_rank := r, ranking_method := m\<rparr>) = base_record p" for p r m
    by (simp add: base_record_def)
  have base: "base_record ` set (fst (retrieve_evidence a h er q k m)) = set (fst (retrieve_evidence a h er q k m))"
    for a :: "'c ann_search" and h er q k m
    by (rule base_record_candidates)
  show ?thesis
    using retrieve_and_rerank_image [of doc_id ann text_hash hr query initial_top_k final_top_k min_similarity, OF inv1 inv2]
      reranker_retrieve_and_rerank_image [of doc_id ann text_hash rhr query initial_top_k final_top_k min_similarity, OF inv1 inv2]
      retrieve_and_rerank_image [of base_record ann text_hash hr query initial_top_k final_top_k min_similarity, OF inv3 inv4]
      reranker_retrieve_and_rerank_image [of base_record ann text_hash rhr query initial_top_k final_top_k min_similarity, OF inv3 inv4]
    unfolding base by (intro conjI)
qed


section \<open>Properties of the hybrid retrievers\<close>

lemma candidates_two:
  "fst (retrieve_evidence exact_ann id retriever_two ''vaccine'' 2 0) =
     [evidence_of (0, 1, article ''1'' ''Vaccine safety'' ''safe''),
      evidence_of (1, 1 / 2, article ''2'' ''Digital'' ''program'')]"
  by (simp add: retrieve_evidence_cases retriever_two_def encode_loaded search_two_articles)

lemma retrieve_two_all:
  "retrieve_evidence exact_ann id retriever_two ''vaccine'' 2 0 =
     ([evidence_of (0, 1, article ''1'' ''Vaccine safety'' ''safe''),
       evidence_of (1, 1 / 2, article ''2'' ''Digital'' ''program'')],
      retriever_two\<lparr>embedding_engine := engine_loaded\<lparr>embedding_cache := [(''vaccine'', [1, 0])]\<rparr>\<rparr>)"
  by (simp add: retrieve_evidence_def retriever_two_def encode_loaded search_two_articles)

text \<open>
  C3. With no scorer loaded, \<open>retrieve_and_rerank\<close> should return the stage-1 candidates
  in their order, cut to \<open>final_top_k\<close> and tagged \<open>dense_only\<close>. The retriever of
  reranker.py does neither: \<open>rerank\<close> hands all candidates back when the model is
  \<open>None\<close>, and step 3 writes the tag \<open>hybrid_dense_crossencoder\<close> unconditionally.
  With two candidates and \<open>final_top_k = 1\<close> both come back, tagged as reranked.
\<close>

theorem reranker_hybrid_unloaded_not_dense_only:
  "map (\<lambda>e. (doc_id e, final_rank e, ranking_method e))
     (fst (reranker_retrieve_and_rerank exact_ann id reranker_hybrid_unloaded ''vaccine'' 2 1 0)) =
   [(''1'', Some 1, Some ''hybrid_dense_crossencoder''),
    (''2'', Some 2, Some ''hybrid_dense_crossencoder'')]"
  by (simp add: reranker_retrieve_and_rerank_def reranker_hybrid_unloaded_def retrieve_two_all
      rerank_def add_ranking_metadata_def evidence_of_def article_def)


lemma dense_only_degradation:
  assumes "cross_encoder hr = None"
  shows "fst (retrieve_and_rerank ann text_hash hr query initial_top_k final_top_k min_similarity) =
      add_ranking_metadata ''dense_only''
        (py_slice_to
           (fst (retrieve_evidence ann text_hash (evidence_retriever hr) query initial_top_k min_similarity))
           final_top_k)"
proof -
  have "add_ranking_metadata m (py_slice_to [] k) = []" for m k
    by (simp add: add_ranking_metadata_def py_slice_to_def)
  then show ?thesis using assms
    by (simp add: retrieve_and_rerank_def split: prod.splits)
qed

lemma add_ranking_metadata_tag:
  "e \<in> set (add_ranking_metadata tag xs) \<Longrightarrow> ranking_method e = Some tag"
  by (auto simp: add_ranking_metadata_def)

lemma base_record_add_ranking_metadata:
  "map base_record (add_ranking_metadata tag xs) = map base_record xs"
  by (rule add_ranking_metadata_map) (simp add: base_record_def)

lemma base_record_candidate:
  "e \<in> set (fst (retrieve_evidence ann text_hash er query top_k min_similarity)) \<Longrightarrow>
     base_record e = e"
  by (auto simp: retrieve_evidence_cases base_record_evidence_of split: option.splits)

text \<open>
  The retriever of vector\_search.py does degrade as described: without a scorer its
  results are the stage-1 candidates cut to \<open>final_top_k\<close>, in stage-1 order and with
  stage-1 scores, each tagged \<open>dense_only\<close>.
\<close>

theorem dense_only_when_scorer_missing:
  assumes "cross_encoder hr = None"
  shows "map base_record
      (fst (retrieve_and_rerank ann text_hash hr query initial_top_k final_top_k min_similarity)) =
     py_slice_to
       (fst (retrieve_evidence ann text_hash (evidence_retriever hr) query initial_top_k min_similarity))
       final_top_k \<and>
   list_all (\<lambda>e. ranking_method e = Some ''dense_only'')
     (fst (retrieve_and_rerank ann text_hash hr query initial_top_k final_top_k min_similarity))"
proof -
  let ?c = "fst (retrieve_evidence ann text_hash (evidence_retriever hr) query initial_top_k min_similarity)"
  have "base_record e = e" if "e \<in> set (py_slice_to ?c final_top_k)" for e
  proof -
    from that set_py_slice_to [of ?c final_top_k] have "e \<in> set ?c" by (rule subsetD [rotated])
    then show ?thesis by (rule base_record_candidate)
  qed
  then have keep: "map base_record (py_slice_to ?c final_top_k) = py_slice_to ?c final_top_k"
    by (simp add: map_idI)
  have tags: "list_all (\<lambda>e. ranking_method e = Some ''dense_only'')
      (add_ranking_metadata ''dense_only'' (py_slice_to ?c final_top_k))"
    unfolding list_all_iff using add_ranking_metadata_tag by blast
  show ?thesis
    unfolding dense_only_degradation [OF assms] base_record_add_ranking_metadata keep
    using tags by simp
qed


theorem dense_only_when_scorer_missing_witness:
  "cross_encoder hybrid_unloaded = None \<and>
   map (\<lambda>e. (doc_id e, similarity_score e, final_rank e, ranking_method e))
     (fst (retrieve_and_rerank exact_ann id hybrid_unloaded ''vaccine'' 2 1 0)) =
   [(''1'', 1, Some 1, Some ''dense_only'')]"
proof -
  have a: "cross_encoder hybrid_unloaded = None" by (simp add: hybrid_unloaded_def)
  have b: "map (\<lambda>e. (doc_id e, similarity_score e, final_rank e, ranking_method e))
     (fst (retrieve_and_rerank exact_ann id hybrid_unloaded ''vaccine'' 2 1 0)) =
   [(''1'', 1, Some 1, Some ''dense_only'')]"
    by (simp add: retrieve_and_rerank_def hybrid_unloaded_def retrieve_two_all
      add_ranking_metadata_def py_slice_to_def evidence_of_def article_def)
  from dense_only_when_scorer_missing [OF a, of exact_ann id "''vaccine''" 2 1 0]
  have c: "list_all (\<lambda>e. ranking_method e = Some ''dense_only'')
     (fst (retrieve_and_rerank exact_ann id hybrid_unloaded ''vaccine'' 2 1 0))"
    by (rule conjunct2)
  show ?thesis using c by (simp add: a b)
qed


lemma scored_two:
  "rerank_with_cross_encoder constant_scorer ''vaccine''
     [evidence_of (0, 1, article ''1'' ''Vaccine safety'' ''safe''),
      evidence_of (1, 1 / 2, article ''2'' ''Digital'' ''program'')] (Some 1) =
   [(evidence_of (0, 1, article ''1'' ''Vaccine safety'' ''safe''))
      \<lparr>rerank_score := Some 0, combined_score := Some (13 / 20)\<rparr>]"
proof -
  have c1: "combine_scores_default 1 0 = 13 / 20"
    by (simp add: combine_scores_default_def combine_scores_def)
  have c2: "combine_scores_default (1 / 2) 0 = 1 / 2"
    by (simp add: combine_scores_default_def combine_scores_def)
  show ?thesis
    by (simp add: rerank_with_cross_encoder_def constant_scorer_def similarity_score_evidence_of
        c1 c2 truncate_top_k_def sort_by_combined_desc_def sort_key_of_def py_slice_to_def)
qed


theorem rerank_recall_containment_witness:
  "map doc_id (fst (retrieve_and_rerank exact_ann id hybrid_loaded ''vaccine'' 2 1 0)) = [''1''] \<and>
   map doc_id (fst (retrieve_evidence exact_ann id retriever_two ''vaccine'' 2 0)) = [''1'', ''2'']"
proof -
  have a: "map doc_id (fst (retrieve_evidence exact_ann id retriever_two ''vaccine'' 2 0)) = [''1'', ''2'']"
    by (simp add: candidates_two evidence_of_def article_def)
  have b: "map doc_id (fst (retrieve_and_rerank exact_ann id hybrid_loaded ''vaccine'' 2 1 0)) = [''1'']"
  proof -
    have "fst (retrieve_and_rerank exact_ann id hybrid_loaded ''vaccine'' 2 1 0) =
        add_ranking_metadata ''hybrid_dense_crossencoder''
          [(evidence_of (0, 1, article ''1'' ''Vaccine safety'' ''safe''))
             \<lparr>rerank_score := Some 0, combined_score := Some (13 / 20)\<rparr>]"
      by (simp add: retrieve_and_rerank_def hybrid_loaded_def retrieve_two_all scored_two)
    then show ?thesis
      by (simp add: add_ranking_metadata_def evidence_of_def article_def)
  qed
  from rerank_recall_containment
         [where ann = exact_ann and text_hash = id and hr = hybrid_loaded and query = "''vaccine''"
            and initial_top_k = 2 and final_top_k = 1 and min_similarity = 0]
  have c: "doc_id ` set (fst (retrieve_and_rerank exact_ann id hybrid_loaded ''vaccine'' 2 1 0))
     \<subseteq> doc_id ` set (fst (retrieve_evidence exact_ann id (evidence_retriever hybrid_loaded) ''vaccine'' 2 0))"
    by (rule conjunct1)
  show ?thesis using c by (simp add: a b)
qed


section \<open>Properties of the in-process cache\<close>

lemma py_min_by_in: "py_min_by f best xs \<in> set (best # xs)"
  by (induction xs arbitrary: best) auto

lemma py_min_by_le_best: "f (py_min_by f best xs) \<le> f best"
proof (induction xs arbitrary: best)
  case Nil
  then show ?case by simp
next
  case (Cons x xs)
  have "f (py_min_by f (if f x < f best then x else best) xs) \<le> f (if f x < f best then x else best)"
    by (rule Cons.IH)
  then show ?case by (auto split: if_splits)
qed

lemma py_min_by_least: "x \<in> set (best # xs) \<Longrightarrow> f (py_min_by f best xs) \<le> f x"
proof (induction xs arbitrary: best)
  case Nil
  then show ?case by simp
next
  case (Cons y ys)
  let ?b = "if f y < f best then y else best"
  from Cons.prems consider "x = best" | "x = y" | "x \<in> set ys" by auto
  then show ?case
  proof cases
    case 1
    have "f (py_min_by f ?b ys) \<le> f ?b" by (rule py_min_by_le_best)
    with 1 show ?thesis by (auto split: if_splits)
  next
    case 2
    have "f (py_min_by f ?b ys) \<le> f ?b" by (rule py_min_by_le_best)
    with 2 show ?thesis by (auto split: if_splits)
  next
    case 3
    then have "x \<in> set (?b # ys)" by simp
    then have "f (py_min_by f ?b ys) \<le> f x" by (rule Cons.IH)
    then show ?thesis by simp
  qed
qed

lemma lru_key_Nil: "lru_key items = None \<longleftrightarrow> items = []"
  by (simp add: lru_key_def split: list.splits)

lemma lru_key_oldest:
  assumes "lru_key items = Some victim" and d: "distinct (map fst items)"
  obtains entry where "map_of items victim = Some entry"
    and "\<And>k' e'. (k', e') \<in> set items \<Longrightarrow> last_accessed entry \<le> last_accessed e'"
proof -
  from assms(1) obtain first rest where items: "items = first # rest"
    and v: "victim = fst (py_min_by (\<lambda>(k, entry). last_accessed entry) first rest)"
    by (auto simp: lru_key_def split: list.splits)
  let ?f = "\<lambda>(k, entry). last_accessed entry"
  let ?m = "py_min_by ?f first rest"
  have mem: "?m \<in> set items" unfolding items by (rule py_min_by_in)
  then have "(victim, snd ?m) \<in> set items" by (simp add: v)
  with d have look: "map_of items victim = Some (snd ?m)" by simp
  have least: "last_accessed (snd ?m) \<le> last_accessed e'" if "(k', e') \<in> set items" for k' e'
  proof -
    from that have "(k', e') \<in> set (first # rest)" by (simp add: items)
    then have "?f ?m \<le> ?f (k', e')" by (rule py_min_by_least)
    then show ?thesis by (simp add: case_prod_beta)
  qed
  from look least show ?thesis by (rule that)
qed

lemma length_delete_present:
  "distinct (map fst items) \<Longrightarrow> map_of items k = Some e \<Longrightarrow>
     length (AList.delete k items) + 1 = length items"
proof (induction items)
  case Nil
  then show ?case by simp
next
  case (Cons p items)
  show ?case
  proof (cases "fst p = k")
    case True
    with Cons.prems have "k \<notin> fst ` set items" by auto
    then have "AList.delete k items = items"
      by (induction items) (auto simp: AList.delete_eq)
    with True show ?thesis by (cases p) (simp add: AList.delete_eq)
  next
    case False
    with Cons show ?thesis by (cases p) (auto simp: AList.delete_eq)
  qed
qed

lemma set_delete_present:
  "distinct (map fst items) \<Longrightarrow> map_of items k = Some e \<Longrightarrow>
     set (AList.delete k items) = set items - {(k, e)}"
proof -
  assume d: "distinct (map fst items)" and l: "map_of items k = Some e"
  have "(k', e') \<in> set items \<and> k' = k \<longleftrightarrow> (k', e') = (k, e)" for k' e'
    using d l by (metis map_of_is_SomeI map_of_SomeD option.inject prod.inject)
  then show ?thesis by (auto simp: AList.delete_eq)
qed

lemma length_update_le: "length (AList.update k v items) \<le> length items + 1"
  by (induction items) auto


lemma length_update_present:
  "map_of items k = Some e \<Longrightarrow> length (AList.update k v items) = length items"
  by (induction items) (auto split: if_splits)

lemma max_size_evict_lru: "max_size (evict_lru mc) = max_size mc"
  by (simp add: evict_lru_def split: option.splits)

lemma max_size_set: "max_size (snd (MemoryCache_set now mc k v ttl)) = max_size mc"
  by (simp add: MemoryCache_set_def Let_def max_size_evict_lru)

lemma max_size_get: "max_size (snd (MemoryCache_get now mc k)) = max_size mc"
  by (simp add: MemoryCache_get_def split: option.splits)

lemma evict_lru_shrinks:
  assumes "distinct (map fst (m_cache mc))" and "m_cache mc \<noteq> []"
  shows "length (m_cache (evict_lru mc)) + 1 = length (m_cache mc)"
proof -
  from assms(2) obtain victim where v: "lru_key (m_cache mc) = Some victim"
    using lru_key_Nil [of "m_cache mc"] by (cases "lru_key (m_cache mc)") auto
  from v assms(1) obtain entry where "map_of (m_cache mc) victim = Some entry"
    by (rule lru_key_oldest)
  with assms(1) have "length (AList.delete victim (m_cache mc)) + 1 = length (m_cache mc)"
    by (rule length_delete_present)
  with v show ?thesis by (simp add: evict_lru_def)
qed

lemma distinct_evict_lru:
  "distinct (map fst (m_cache mc)) \<Longrightarrow> distinct (map fst (m_cache (evict_lru mc)))"
  by (simp add: evict_lru_def distinct_delete split: option.splits)

lemma cache_inv_set:
  assumes inv: "cache_inv mc" and pos: "1 \<le> max_size mc"
  shows "cache_inv (snd (MemoryCache_set now mc k v ttl))"
proof -
  let ?mc1 = "if int (length (m_cache mc)) \<ge> max_size mc then evict_lru mc else mc"
  let ?e = "new_entry now k v (ttl_or_default ttl (default_ttl mc))"
  from inv have d: "distinct (map fst (m_cache mc))"
    and le: "int (length (m_cache mc)) \<le> max_size mc" by (simp_all add: cache_inv_def)
  have d1: "distinct (map fst (m_cache ?mc1))" using d by (simp add: distinct_evict_lru)
  have room: "int (length (m_cache ?mc1)) + 1 \<le> max_size mc"
  proof (cases "int (length (m_cache mc)) \<ge> max_size mc")
    case True
    with pos have "m_cache mc \<noteq> []" by auto
    with d have "length (m_cache (evict_lru mc)) + 1 = length (m_cache mc)"
      by (rule evict_lru_shrinks)
    with True le show ?thesis by simp
  next
    case False
    then show ?thesis by simp
  qed
  have "int (length (AList.update k ?e (m_cache ?mc1))) \<le> int (length (m_cache ?mc1)) + 1"
    using length_update_le [of k ?e "m_cache ?mc1"] by simp
  with room have "int (length (AList.update k ?e (m_cache ?mc1))) \<le> max_size mc" by simp
  moreover have "distinct (map fst (AList.update k ?e (m_cache ?mc1)))"
    using d1 by (rule distinct_update)
  moreover have "m_cache (snd (MemoryCache_set now mc k v ttl)) = AList.update k ?e (m_cache ?mc1)"
    by (simp add: MemoryCache_set_def Let_def)
  ultimately show ?thesis
    unfolding cache_inv_def max_size_set by simp
qed

lemma cache_inv_get: "cache_inv mc \<Longrightarrow> cache_inv (snd (MemoryCache_get now mc k))"
proof -
  assume inv: "cache_inv mc"
  have "int (length (AList.delete k (m_cache mc))) \<le> int (length (m_cache mc))"
    by (simp add: length_delete_le)
  with inv show ?thesis
    by (auto simp: cache_inv_def MemoryCache_get_def length_update_present distinct_update
        distinct_delete split: option.splits)
qed

lemma cache_inv_delete: "cache_inv mc \<Longrightarrow> cache_inv (snd (MemoryCache_delete mc k))"
proof -
  assume inv: "cache_inv mc"
  have "int (length (AList.delete k (m_cache mc))) \<le> int (length (m_cache mc))"
    by (simp add: length_delete_le)
  with inv show ?thesis
    by (auto simp: cache_inv_def MemoryCache_delete_def distinct_delete)
qed

lemma cache_inv_cleanup: "cache_inv mc \<Longrightarrow> cache_inv (cleanup_expired now mc)"
proof -
  assume inv: "cache_inv mc"
  let ?keep = "filter (\<lambda>(k, entry). \<not> is_expired now entry) (m_cache mc)"
  from inv have le: "int (length (m_cache mc)) \<le> max_size mc" by (simp add: cache_inv_def)
  have "int (length ?keep) \<le> int (length (m_cache mc))" by simp
  from this le have "int (length ?keep) \<le> max_size mc" by (rule order_trans)
  moreover from inv have "distinct (map fst ?keep)"
    by (simp add: cache_inv_def distinct_map_filter)
  ultimately show ?thesis by (simp add: cache_inv_def cleanup_expired_def)
qed

lemma reachable_inv:
  assumes "reachable dttl msize mc" and "1 \<le> msize"
  shows "cache_inv mc \<and> max_size mc = msize"
  using assms
proof (induction rule: reachable.induct)
  case init
  then show ?case by (simp add: cache_inv_def)
next
  case (after_set mc now k v ttl)
  then show ?case by (simp add: cache_inv_set max_size_set)
next
  case (after_get mc now k)
  then show ?case by (simp add: cache_inv_get max_size_get)
next
  case (after_delete mc k)
  then show ?case using cache_inv_delete [of mc k] by (simp add: MemoryCache_delete_def)
next
  case (after_clear mc)
  then show ?case by (simp add: MemoryCache_clear_def cache_inv_def)
next
  case (after_cleanup mc now)
  then show ?case using cache_inv_cleanup [of mc now] by (simp add: cleanup_expired_def)
qed


text \<open>
  C4 as stated, for every cache state: a \<open>set\<close> on a cache whose size has reached
  \<open>max_size\<close> evicts one entry and leaves at most \<open>max_size\<close> entries. A cache
  constructed with \<open>max_size = 0\<close> has reached its size while empty; \<open>_evict_lru\<close>
  returns at once on the empty dictionary, nothing is evicted, and the insert leaves one
  entry in a cache of capacity zero.
\<close>

theorem set_on_zero_capacity_overflows:
  "reachable 3600 0 zero_cache \<and>
   max_size zero_cache \<le> int (length (m_cache zero_cache)) \<and>
   evict_lru zero_cache = zero_cache \<and>
   m_cache (snd (MemoryCache_set 1 zero_cache ''a'' (Some 1) None)) =
     [(''a'', new_entry 1 ''a'' (Some 1) 3600)] \<and>
   max_size (snd (MemoryCache_set 1 zero_cache ''a'' (Some 1) None)) <
     int (length (m_cache (snd (MemoryCache_set 1 zero_cache ''a'' (Some 1) None))))"
proof -
  have "reachable 3600 0 zero_cache" unfolding zero_cache_def by (rule reachable.init)
  then show ?thesis
    by (simp add: zero_cache_def evict_lru_def lru_key_def MemoryCache_set_def ttl_or_default_def)
qed

text \<open>
  Python's \<open>min\<close> keeps the first of several least elements: everything before its
  pick is strictly greater, everything after it is at least as great.
\<close>

lemma py_min_by_first:
  "\<exists>before after. best # xs = before @ py_min_by f best xs # after \<and>
     list_all (\<lambda>x. f (py_min_by f best xs) < f x) before \<and>
     list_all (\<lambda>x. f (py_min_by f best xs) \<le> f x) after"
proof (induction xs arbitrary: best)
  case Nil
  have "[best] = [] @ py_min_by f best [] # []" by simp
  moreover have "list_all (\<lambda>x. f (py_min_by f best []) < f x) []" by simp
  moreover have "list_all (\<lambda>x. f (py_min_by f best []) \<le> f x) []" by simp
  ultimately show ?case by blast
next
  case (Cons y ys)
  define b where "b = (if f y < f best then y else best)"
  define m where "m = py_min_by f b ys"
  have res: "py_min_by f best (y # ys) = m" by (simp add: m_def b_def)
  from Cons.IH [of b] obtain before after where
    split: "b # ys = before @ m # after"
    and lt: "list_all (\<lambda>x. f m < f x) before"
    and le: "list_all (\<lambda>x. f m \<le> f x) after"
    unfolding m_def by blast
  have mb: "f m \<le> f b" unfolding m_def by (rule py_min_by_le_best)
  have "\<exists>before after. best # y # ys = before @ m # after \<and>
     list_all (\<lambda>x. f m < f x) before \<and> list_all (\<lambda>x. f m \<le> f x) after"
  proof (cases "f y < f best")
    case True
    then have bis: "b = y" by (simp add: b_def)
    from split bis have "best # y # ys = (best # before) @ m # after" by simp
    moreover from True mb bis have "f m < f best" by simp
    with lt have "list_all (\<lambda>x. f m < f x) (best # before)" by simp
    ultimately show ?thesis using le by blast
  next
    case False
    then have bb: "b = best" by (simp add: b_def)
    show ?thesis
    proof (cases before)
      case Nil
      with split bb have mbest: "m = best" and aft: "after = ys" by simp_all
      from False mbest have "f m \<le> f y" by simp
      with le aft have "list_all (\<lambda>x. f m \<le> f x) (y # ys)" by simp
      moreover from mbest have "best # y # ys = [] @ m # (y # ys)" by simp
      moreover have "list_all (\<lambda>x. f m < f x) []" by simp
      ultimately show ?thesis by blast
    next
      case (Cons c cs)
      with split bb have c: "c = best" and ys: "ys = cs @ m # after" by simp_all
      from lt Cons c have mlt: "f m < f best" and cslt: "list_all (\<lambda>x. f m < f x) cs"
        by simp_all
      from mlt False have "f m < f y" by simp
      with mlt cslt have "list_all (\<lambda>x. f m < f x) (best # y # cs)" by simp
      moreover from ys have "best # y # ys = (best # y # cs) @ m # after" by simp
      ultimately show ?thesis using le by blast
    qed
  qed
  then show ?case unfolding res .
qed

lemma lru_key_first:
  assumes v: "lru_key items = Some victim" and d: "distinct (map fst items)"
    and look: "map_of items victim = Some entry"
  shows "\<exists>before after. items = before @ (victim, entry) # after \<and>
     list_all (\<lambda>(k', e'). last_accessed entry < last_accessed e') before \<and>
     list_all (\<lambda>(k', e'). last_accessed entry \<le> last_accessed e') after"
proof -
  let ?f = "\<lambda>(k, entry). last_accessed entry"
  from v obtain first rest where items: "items = first # rest"
    and vk: "victim = fst (py_min_by ?f first rest)"
    by (auto simp: lru_key_def split: list.splits)
  let ?m = "py_min_by ?f first rest"
  have "?m \<in> set items" unfolding items by (rule py_min_by_in)
  then have "(victim, snd ?m) \<in> set items" by (simp add: vk)
  with d have "map_of items victim = Some (snd ?m)" by simp
  with look have me: "?m = (victim, entry)" by (simp add: vk prod_eq_iff)
  from py_min_by_first [of first rest ?f] obtain before after where
    split: "first # rest = before @ ?m # after"
    and lt: "list_all (\<lambda>x. ?f ?m < ?f x) before"
    and le: "list_all (\<lambda>x. ?f ?m \<le> ?f x) after"
    by blast
  from lt have lt': "list_all (\<lambda>(k', e'). last_accessed entry < last_accessed e') before"
    by (simp add: me list_all_iff case_prod_beta)
  from le have le': "list_all (\<lambda>(k', e'). last_accessed entry \<le> last_accessed e') after"
    by (simp add: me list_all_iff case_prod_beta)
  from split have "items = before @ (victim, entry) # after" by (simp add: items me)
  with lt' le' show ?thesis by blast
qed


text \<open>
  C4, amended to caches constructed with \<open>max_size \<ge> 1\<close>: in every state such a cache
  can reach, a \<open>set\<close> leaves at most \<open>max_size\<close> entries; and when the size has reached
  \<open>max_size\<close>, exactly one entry is removed before the insert, one whose
  \<open>last_accessed\<close> is the oldest of all and, among equally old ones, the first in
  insertion order: every entry stored before it was accessed strictly later. The new
  entry is then written into what remains.
\<close>

theorem set_evicts_single_oldest:
  assumes r: "reachable dttl msize mc" and pos: "1 \<le> msize"
  shows "int (length (m_cache (snd (MemoryCache_set now mc k v ttl)))) \<le>
           max_size (snd (MemoryCache_set now mc k v ttl)) \<and>
         (max_size mc \<le> int (length (m_cache mc)) \<longrightarrow>
            (\<exists>victim entry.
               lru_key (m_cache mc) = Some victim \<and>
               map_of (m_cache mc) victim = Some entry \<and>
               list_all (\<lambda>(k', e'). last_accessed entry \<le> last_accessed e') (m_cache mc) \<and>
               (\<exists>before after.
                  m_cache mc = before @ (victim, entry) # after \<and>
                  list_all (\<lambda>(k', e'). last_accessed entry < last_accessed e') before \<and>
                  list_all (\<lambda>(k', e'). last_accessed entry \<le> last_accessed e') after) \<and>
               set (m_cache (evict_lru mc)) = set (m_cache mc) - {(victim, entry)} \<and>
               length (m_cache (evict_lru mc)) + 1 = length (m_cache mc) \<and>
               m_cache (snd (MemoryCache_set now mc k v ttl)) =
                 AList.update k (new_entry now k v (ttl_or_default ttl (default_ttl mc)))
                   (m_cache (evict_lru mc))))"
proof (intro conjI impI)
  from r pos have inv: "cache_inv mc" and ms: "max_size mc = msize"
    using reachable_inv by blast+
  from inv pos ms have "cache_inv (snd (MemoryCache_set now mc k v ttl))"
    by (simp add: cache_inv_set)
  then show "int (length (m_cache (snd (MemoryCache_set now mc k v ttl)))) \<le>
           max_size (snd (MemoryCache_set now mc k v ttl))"
    by (simp add: cache_inv_def)
next
  assume full: "max_size mc \<le> int (length (m_cache mc))"
  from r pos have inv: "cache_inv mc" and ms: "max_size mc = msize"
    using reachable_inv by blast+
  from inv have d: "distinct (map fst (m_cache mc))" by (simp add: cache_inv_def)
  from full pos ms have ne: "m_cache mc \<noteq> []" by auto
  then obtain victim where v: "lru_key (m_cache mc) = Some victim"
    using lru_key_Nil [of "m_cache mc"] by (cases "lru_key (m_cache mc)") auto
  obtain entry where look: "map_of (m_cache mc) victim = Some entry"
    and least: "\<And>k' e'. (k', e') \<in> set (m_cache mc) \<Longrightarrow> last_accessed entry \<le> last_accessed e'"
  proof (rule lru_key_oldest [OF v d])
    fix entry
    assume "map_of (m_cache mc) victim = Some entry"
      and "\<And>k' e'. (k', e') \<in> set (m_cache mc) \<Longrightarrow> last_accessed entry \<le> last_accessed e'"
    then show thesis by (rule that)
  qed
  have ev: "m_cache (evict_lru mc) = AList.delete victim (m_cache mc)"
    using v by (simp add: evict_lru_def)
  have oldest: "list_all (\<lambda>(k', e'). last_accessed entry \<le> last_accessed e') (m_cache mc)"
    unfolding list_all_iff using least by auto
  have first: "\<exists>before after.
      m_cache mc = before @ (victim, entry) # after \<and>
      list_all (\<lambda>(k', e'). last_accessed entry < last_accessed e') before \<and>
      list_all (\<lambda>(k', e'). last_accessed entry \<le> last_accessed e') after"
    using v d look by (rule lru_key_first)
  have gone: "set (m_cache (evict_lru mc)) = set (m_cache mc) - {(victim, entry)}"
    unfolding ev using d look by (rule set_delete_present)
  have one: "length (m_cache (evict_lru mc)) + 1 = length (m_cache mc)"
    using d ne by (rule evict_lru_shrinks)
  have ins: "m_cache (snd (MemoryCache_set now mc k v ttl)) =
      AList.update k (new_entry now k v (ttl_or_default ttl (default_ttl mc)))
        (m_cache (evict_lru mc))"
    using full by (simp add: MemoryCache_set_def Let_def)
  from v look oldest first gone one ins
  have "lru_key (m_cache mc) = Some victim \<and>
               map_of (m_cache mc) victim = Some entry \<and>
               list_all (\<lambda>(k', e'). last_accessed entry \<le> last_accessed e') (m_cache mc) \<and>
               (\<exists>before after.
                  m_cache mc = before @ (victim, entry) # after \<and>
                  list_all (\<lambda>(k', e'). last_accessed entry < last_accessed e') before \<and>
                  list_all (\<lambda>(k', e'). last_accessed entry \<le> last_accessed e') after) \<and>
               set (m_cache (evict_lru mc)) = set (m_cache mc) - {(victim, entry)} \<and>
               length (m_cache (evict_lru mc)) + 1 = length (m_cache mc) \<and>
               m_cache (snd (MemoryCache_set now mc k v ttl)) =
                 AList.update k (new_entry now k v (ttl_or_default ttl (default_ttl mc)))
                   (m_cache (evict_lru mc))"
    by (intro conjI)
  then show "\<exists>victim entry.
               lru_key (m_cache mc) = Some victim \<and>
               map_of (m_cache mc) victim = Some entry \<and>
               list_all (\<lambda>(k', e'). last_accessed entry \<le> last_accessed e') (m_cache mc) \<and>
               (\<exists>before after.
                  m_cache mc = before @ (victim, entry) # after \<and>
                  list_all (\<lambda>(k', e'). last_accessed entry < last_accessed e') before \<and>
                  list_all (\<lambda>(k', e'). last_accessed entry \<le> last_accessed e') after) \<and>
               set (m_cache (evict_lru mc)) = set (m_cache mc) - {(victim, entry)} \<and>
               length (m_cache (evict_lru mc)) + 1 = length (m_cache mc) \<and>
               m_cache (snd (MemoryCache_set now mc k v ttl)) =
                 AList.update k (new_entry now k v (ttl_or_default ttl (default_ttl mc)))
                   (m_cache (evict_lru mc))"
    by (intro exI)
qed

lemma cache_ab_value:
  "cache_ab = \<lparr>default_ttl = 3600, max_size = 2,
      m_cache = [(''a'', new_entry 1 ''a'' (Some 1) 3600), (''b'', new_entry 2 ''b'' (Some 2) 3600)]\<rparr>"
  by (simp add: cache_ab_def empty_cache_2_def MemoryCache_set_def ttl_or_default_def)

lemma cache_tie_value:
  "cache_tie = \<lparr>default_ttl = 3600, max_size = 2,
      m_cache = [(''a'', new_entry 1 ''a'' (Some 1) 3600), (''b'', new_entry 1 ''b'' (Some 2) 3600)]\<rparr>"
  by (simp add: cache_tie_def empty_cache_2_def MemoryCache_set_def ttl_or_default_def)

lemma reachable_cache_tie: "reachable 3600 2 cache_tie"
proof -
  have "reachable 3600 2 empty_cache_2" unfolding empty_cache_2_def by (rule reachable.init)
  then have "reachable 3600 2 (snd (MemoryCache_set 1 empty_cache_2 ''a'' (Some 1) None))"
    by (rule reachable.after_set)
  then show ?thesis unfolding cache_tie_def by (rule reachable.after_set)
qed

lemma tie_victim_from_order:
  assumes "[(''a'', ea), (''b'', eb)] = before @ (victim, entry) # after"
    and "list_all (\<lambda>(k', e'). last_accessed entry < last_accessed e') before"
    and "last_accessed ea = last_accessed eb"
  shows "victim = ''a''"
proof (cases before)
  case Nil
  with assms(1) show ?thesis by simp
next
  case (Cons p ps)
  with assms(1) have p: "p = (''a'', ea)" and rest: "[(''b'', eb)] = ps @ (victim, entry) # after"
    by simp_all
  from rest have "ps = []" and "entry = eb" by (cases ps; simp)+
  with assms(2) Cons p have "last_accessed eb < last_accessed ea" by simp
  with assms(3) show ?thesis by simp
qed


theorem set_evicts_single_oldest_witness:
  "reachable 3600 2 cache_ab \<and> (1::int) \<le> 2 \<and>
   max_size cache_ab \<le> int (length (m_cache cache_ab)) \<and>
   lru_key (m_cache cache_ab) = Some ''a'' \<and>
   map fst (m_cache (snd (MemoryCache_set 3 cache_ab ''c'' (Some 3) None))) = [''b'', ''c''] \<and>
   int (length (m_cache (snd (MemoryCache_set 3 cache_ab ''c'' (Some 3) None)))) \<le> 2 \<and>
   reachable 3600 2 cache_tie \<and>
   max_size cache_tie \<le> int (length (m_cache cache_tie)) \<and>
   map (\<lambda>(k, e). (k, last_accessed e)) (m_cache cache_tie) = [(''a'', 1), (''b'', 1)] \<and>
   lru_key (m_cache cache_tie) = Some ''a'' \<and>
   map fst (m_cache (snd (MemoryCache_set 3 cache_tie ''c'' (Some 3) None))) = [''b'', ''c'']"
proof -
  have "reachable 3600 2 empty_cache_2" unfolding empty_cache_2_def by (rule reachable.init)
  then have "reachable 3600 2 (snd (MemoryCache_set 1 empty_cache_2 ''a'' (Some 1) None))"
    by (rule reachable.after_set)
  then have r: "reachable 3600 2 cache_ab" unfolding cache_ab_def by (rule reachable.after_set)
  have pos: "(1::int) \<le> 2" by simp
  have lru: "lru_key (m_cache cache_ab) = Some ''a''"
    by (simp add: cache_ab_value lru_key_def new_entry_def)
  have after: "map fst (m_cache (snd (MemoryCache_set 3 cache_ab ''c'' (Some 3) None))) = [''b'', ''c'']"
    by (simp add: cache_ab_value MemoryCache_set_def evict_lru_def lru_key_def new_entry_def
        AList.delete_eq)
  have full: "max_size cache_ab \<le> int (length (m_cache cache_ab))"
    by (simp add: cache_ab_value)
  from set_evicts_single_oldest [OF r pos, of 3 "''c''" "Some 3" None]
  have bound: "int (length (m_cache (snd (MemoryCache_set 3 cache_ab ''c'' (Some 3) None)))) \<le>
      max_size (snd (MemoryCache_set 3 cache_ab ''c'' (Some 3) None))"
    by (rule conjunct1)
  have "max_size (snd (MemoryCache_set 3 cache_ab ''c'' (Some 3) None)) = 2"
    by (simp add: max_size_set cache_ab_value)
  with bound have b2: "int (length (m_cache (snd (MemoryCache_set 3 cache_ab ''c'' (Some 3) None)))) \<le> 2"
    by simp
  have rt: "reachable 3600 2 cache_tie" by (rule reachable_cache_tie)
  have full_tie: "max_size cache_tie \<le> int (length (m_cache cache_tie))"
    by (simp add: cache_tie_value)
  have stamps: "map (\<lambda>(k, e). (k, last_accessed e)) (m_cache cache_tie) = [(''a'', 1), (''b'', 1)]"
    by (simp add: cache_tie_value new_entry_def)
  from set_evicts_single_oldest [OF rt pos, of 3 "''c''" "Some 3" None] full_tie
  obtain victim entry before after where
    lk: "lru_key (m_cache cache_tie) = Some victim"
    and split: "m_cache cache_tie = before @ (victim, entry) # after"
    and lt: "list_all (\<lambda>(k', e'). last_accessed entry < last_accessed e') before"
    by blast
  from split have split': "[(''a'', new_entry 1 ''a'' (Some (1::nat)) 3600),
      (''b'', new_entry 1 ''b'' (Some 2) 3600)] = before @ (victim, entry) # after"
    by (simp add: cache_tie_value)
  have same: "last_accessed (new_entry 1 ''a'' (Some (1::nat)) 3600) =
      last_accessed (new_entry 1 ''b'' (Some (2::nat)) 3600)"
    by (simp add: new_entry_def)
  from split' lt same have "victim = ''a''" by (rule tie_victim_from_order)
  with lk have lru_tie: "lru_key (m_cache cache_tie) = Some ''a''" by simp
  have after_tie:
    "map fst (m_cache (snd (MemoryCache_set 3 cache_tie ''c'' (Some 3) None))) = [''b'', ''c'']"
    by (simp add: cache_tie_value MemoryCache_set_def evict_lru_def lru_key_def new_entry_def
        AList.delete_eq)
  from r pos full lru after b2 rt full_tie stamps lru_tie after_tie
  show ?thesis by (intro conjI)
qed

end
